theory Spec2Isabelle
  imports Main "HOL-Library.Word"
begin

section \<open>The operating system seen by fdlimit.c\<close>

text \<open>
  Modelled from the spec: the primitives that \<^verbatim>\<open>fdlimit.c\<close> calls but does not define
  (\<^verbatim>\<open>tr_sys_file_open\<close>, \<^verbatim>\<open>tr_sys_file_close\<close>, \<^verbatim>\<open>tr_sys_file_truncate\<close>,
  \<^verbatim>\<open>tr_sys_file_preallocate\<close>, \<^verbatim>\<open>tr_sys_file_seek\<close>, \<^verbatim>\<open>tr_sys_file_write\<close>,
  \<^verbatim>\<open>tr_sys_path_get_info\<close>, \<^verbatim>\<open>tr_sys_path_dirname\<close>, \<^verbatim>\<open>tr_mkdirp\<close>, \<^verbatim>\<open>tr_time\<close>,
  \<^verbatim>\<open>socket\<close>, \<^verbatim>\<open>tr_netCloseSocket\<close>, \<^verbatim>\<open>getrlimit\<close>, \<^verbatim>\<open>setrlimit\<close>) and the macro
  \<^verbatim>\<open>FD_SETSIZE\<close>. The operating system is an explicit state:

  \<^item> \<open>files\<close>: the regular files on disk, path to size in bytes (a \<^verbatim>\<open>uint64_t\<close>, held as a
    natural number; no operation of the modelled code makes one wrap);
  \<^item> \<open>fds\<close>: the table of open file descriptors; \<open>socks\<close>: the open sockets;
  \<^item> \<open>next_fd\<close>: the number the next successful \<^verbatim>\<open>open\<close> or \<^verbatim>\<open>socket\<close> returns;
  \<^item> \<open>clock\<close>: what \<^verbatim>\<open>tr_time ()\<close> returns; \<open>errno\<close>: the C variable;
  \<^item> \<open>faults\<close>: a script of injected failures. Every primitive that can fail takes the
    head of the script: \<open>None\<close> (and the empty script) lets the call run normally,
    \<open>Some e\<close> makes it fail with error code \<open>e\<close> and no other effect;
  \<^item> \<open>calls\<close>: the log of every system call issued, oldest first;
  \<^item> \<open>rlim_cur\<close>, \<open>rlim_max\<close>: the soft and hard \<^verbatim>\<open>RLIMIT_NOFILE\<close> limits (\<^verbatim>\<open>rlim_t\<close>,
    64 bits); \<open>fd_setsize\<close>: the platform's \<^verbatim>\<open>FD_SETSIZE\<close>, a C \<^verbatim>\<open>int\<close>.
\<close>

datatype tr_sys_file_open_flags =
    TR_SYS_FILE_READ | TR_SYS_FILE_WRITE | TR_SYS_FILE_CREATE | TR_SYS_FILE_SEQUENTIAL

datatype os_call =
    MkdirP string
  | OpenFile string "tr_sys_file_open_flags set"
  | CloseFile int
  | Truncate int nat
  | Preallocate int nat bool
  | Seek int nat
  | WriteBytes int nat
  | CreateSocket
  | CloseSocket int
  | GetRlimit
  | SetRlimit "64 word"

record fd_entry =
  path :: string
  wr :: bool
  pos :: nat

record os =
  files :: "string \<Rightarrow> nat option"
  fds :: "int \<Rightarrow> fd_entry option"
  socks :: "int set"
  next_fd :: nat
  clock :: int
  errno :: int
  faults :: "int option list"
  calls :: "os_call list"
  rlim_cur :: "64 word"
  rlim_max :: "64 word"
  fd_setsize :: "32 word"

definition ENOENT :: int where "ENOENT = 2"
definition EBADF :: int where "EBADF = 9"
definition EINVAL :: int where "EINVAL = 22"

definition TR_BAD_SYS_FILE :: int where
  "TR_BAD_SYS_FILE = -1"

definition log_call :: "os_call \<Rightarrow> os \<Rightarrow> os" where
  "log_call c s = s\<lparr>calls := calls s @ [c]\<rparr>"

definition take_fault :: "os \<Rightarrow> int option \<times> os" where
  "take_fault s = (case faults s of [] \<Rightarrow> (None, s) | f # fs \<Rightarrow> (f, s\<lparr>faults := fs\<rparr>))"

definition tr_time :: "os \<Rightarrow> int" where
  "tr_time s = clock s"

definition tr_sys_path_dirname :: "string \<Rightarrow> string" where
  "tr_sys_path_dirname p =
     (if CHR ''/'' \<in> set p then rev (tl (dropWhile (\<lambda>c. c \<noteq> CHR ''/'') (rev p))) else ''.'')"

text \<open>\<^verbatim>\<open>tr_mkdirp\<close> returns 0, or -1 with \<open>errno\<close> set.\<close>

definition tr_mkdirp :: "string \<Rightarrow> os \<Rightarrow> int \<times> os" where
  "tr_mkdirp dir s =
     (case take_fault (log_call (MkdirP dir) s) of
        (Some e, s1) \<Rightarrow> (-1, s1\<lparr>errno := e\<rparr>)
      | (None, s1) \<Rightarrow> (0, s1))"

datatype tr_sys_path_type = TR_SYS_PATH_IS_FILE | TR_SYS_PATH_IS_DIRECTORY | TR_SYS_PATH_IS_OTHER

record tr_sys_path_info =
  type :: tr_sys_path_type
  size :: nat

text \<open>\<^verbatim>\<open>tr_sys_path_get_info\<close>: \<open>None\<close> is the C \<^verbatim>\<open>false\<close>; only regular files are on disk.\<close>

definition tr_sys_path_get_info :: "string \<Rightarrow> os \<Rightarrow> tr_sys_path_info option" where
  "tr_sys_path_get_info p s =
     (case files s p of
        None \<Rightarrow> None
      | Some n \<Rightarrow> Some \<lparr>type = TR_SYS_PATH_IS_FILE, size = n\<rparr>)"

text \<open>
  \<^verbatim>\<open>tr_sys_file_open\<close> returns the descriptor and the code of the \<^verbatim>\<open>tr_error\<close> it sets. A
  missing file is created (empty) when \<^verbatim>\<open>TR_SYS_FILE_CREATE\<close> is given; otherwise the open
  fails with \<open>ENOENT\<close>. The descriptor is writable when \<^verbatim>\<open>TR_SYS_FILE_WRITE\<close> is given.
\<close>

definition tr_sys_file_open :: "string \<Rightarrow> tr_sys_file_open_flags set \<Rightarrow> os \<Rightarrow> int \<times> int \<times> os" where
  "tr_sys_file_open p flags s =
     (case take_fault (log_call (OpenFile p flags) s) of
        (Some e, s1) \<Rightarrow> (TR_BAD_SYS_FILE, e, s1)
      | (None, s1) \<Rightarrow>
          if files s1 p = None \<and> TR_SYS_FILE_CREATE \<notin> flags then (TR_BAD_SYS_FILE, ENOENT, s1)
          else
            (int (next_fd s1), 0,
             s1\<lparr>files := (if files s1 p = None then (files s1)(p \<mapsto> 0) else files s1),
                fds := (fds s1)(int (next_fd s1) \<mapsto>
                          \<lparr>path = p, wr = (TR_SYS_FILE_WRITE \<in> flags), pos = 0\<rparr>),
                next_fd := Suc (next_fd s1)\<rparr>))"

definition tr_sys_file_close :: "int \<Rightarrow> os \<Rightarrow> os" where
  "tr_sys_file_close fd s = (log_call (CloseFile fd) s)\<lparr>fds := (fds s)(fd := None)\<rparr>"

text \<open>\<^verbatim>\<open>tr_sys_file_truncate\<close> returns success and the error code; it needs a writable descriptor.\<close>

definition tr_sys_file_truncate :: "int \<Rightarrow> nat \<Rightarrow> os \<Rightarrow> bool \<times> int \<times> os" where
  "tr_sys_file_truncate fd n s =
     (case take_fault (log_call (Truncate fd n) s) of
        (Some e, s1) \<Rightarrow> (False, e, s1)
      | (None, s1) \<Rightarrow>
          (case fds s1 fd of
             None \<Rightarrow> (False, EBADF, s1)
           | Some en \<Rightarrow>
               if wr en then (True, 0, s1\<lparr>files := (files s1)(path en \<mapsto> n)\<rparr>)
               else (False, EINVAL, s1)))"

text \<open>\<^verbatim>\<open>tr_sys_file_preallocate\<close>: on success the file is at least \<open>n\<close> bytes long.\<close>

definition tr_sys_file_preallocate :: "int \<Rightarrow> nat \<Rightarrow> bool \<Rightarrow> os \<Rightarrow> bool \<times> os" where
  "tr_sys_file_preallocate fd n sparse s =
     (case take_fault (log_call (Preallocate fd n sparse) s) of
        (Some e, s1) \<Rightarrow> (False, s1)
      | (None, s1) \<Rightarrow>
          (case fds s1 fd of
             None \<Rightarrow> (False, s1)
           | Some en \<Rightarrow>
               if wr en
               then (True, s1\<lparr>files := (files s1)(path en \<mapsto>
                                 max n (case files s1 (path en) of None \<Rightarrow> 0 | Some m \<Rightarrow> m))\<rparr>)
               else (False, s1)))"

definition tr_sys_file_seek :: "int \<Rightarrow> nat \<Rightarrow> os \<Rightarrow> bool \<times> os" where
  "tr_sys_file_seek fd off s =
     (case take_fault (log_call (Seek fd off) s) of
        (Some e, s1) \<Rightarrow> (False, s1)
      | (None, s1) \<Rightarrow>
          (case fds s1 fd of
             None \<Rightarrow> (False, s1)
           | Some en \<Rightarrow> (True, s1\<lparr>fds := (fds s1)(fd \<mapsto> en\<lparr>pos := off\<rparr>)\<rparr>)))"

text \<open>
  \<^verbatim>\<open>tr_sys_file_write\<close> returns success and the number of bytes written: all \<open>n\<close> of them at
  the descriptor's position, growing the file when they reach past its end.
\<close>

definition tr_sys_file_write :: "int \<Rightarrow> nat \<Rightarrow> os \<Rightarrow> bool \<times> nat \<times> os" where
  "tr_sys_file_write fd n s =
     (case take_fault (log_call (WriteBytes fd n) s) of
        (Some e, s1) \<Rightarrow> (False, 0, s1)
      | (None, s1) \<Rightarrow>
          (case fds s1 fd of
             None \<Rightarrow> (False, 0, s1)
           | Some en \<Rightarrow>
               if wr en
               then (True, n,
                     s1\<lparr>files := (files s1)(path en \<mapsto>
                                    max (pos en + n) (case files s1 (path en) of None \<Rightarrow> 0 | Some m \<Rightarrow> m)),
                        fds := (fds s1)(fd \<mapsto> en\<lparr>pos := pos en + n\<rparr>)\<rparr>)
               else (False, 0, s1)))"

text \<open>\<^verbatim>\<open>socket ()\<close> returns the new descriptor, or -1 with \<open>errno\<close> set.\<close>

definition socket :: "os \<Rightarrow> int \<times> os" where
  "socket s =
     (case take_fault (log_call CreateSocket s) of
        (Some e, s1) \<Rightarrow> (-1, s1\<lparr>errno := e\<rparr>)
      | (None, s1) \<Rightarrow>
          (int (next_fd s1),
           s1\<lparr>socks := insert (int (next_fd s1)) (socks s1), next_fd := Suc (next_fd s1)\<rparr>))"

definition tr_netCloseSocket :: "int \<Rightarrow> os \<Rightarrow> os" where
  "tr_netCloseSocket fd s = (log_call (CloseSocket fd) s)\<lparr>socks := socks s - {fd}\<rparr>"

record rlimit =
  rlimit_cur :: "64 word"
  rlimit_max :: "64 word"

text \<open>\<^verbatim>\<open>getrlimit (RLIMIT_NOFILE, &limit)\<close> returns 0 and the limits, or -1.\<close>

definition getrlimit :: "os \<Rightarrow> int \<times> rlimit \<times> os" where
  "getrlimit s =
     (case take_fault (log_call GetRlimit s) of
        (Some e, s1) \<Rightarrow> (-1, \<lparr>rlimit_cur = 0, rlimit_max = 0\<rparr>, s1\<lparr>errno := e\<rparr>)
      | (None, s1) \<Rightarrow> (0, \<lparr>rlimit_cur = rlim_cur s1, rlimit_max = rlim_max s1\<rparr>, s1))"

text \<open>
  \<^verbatim>\<open>setrlimit (RLIMIT_NOFILE, &limit)\<close>: an unprivileged process may set any soft limit up to
  the hard limit and may lower the hard limit.
\<close>

definition setrlimit :: "rlimit \<Rightarrow> os \<Rightarrow> int \<times> os" where
  "setrlimit l s =
     (case take_fault (log_call (SetRlimit (rlimit_cur l)) s) of
        (Some e, s1) \<Rightarrow> (-1, s1\<lparr>errno := e\<rparr>)
      | (None, s1) \<Rightarrow>
          if rlimit_cur l \<le> rlimit_max l \<and> rlimit_max l \<le> rlim_max s1
          then (0, s1\<lparr>rlim_cur := rlimit_cur l, rlim_max := rlimit_max l\<rparr>)
          else (-1, s1\<lparr>errno := EINVAL\<rparr>))"


section \<open>Local files\<close>

text \<open>
  A failed \<^verbatim>\<open>assert\<close> (or the dereference of a null slot pointer) ends the process: every
  function that can reach one returns \<open>Inl Assertion_failed\<close> there.
\<close>

datatype abort = Assertion_failed

text \<open>
  \<^verbatim>\<open>preallocate_file_sparse\<close>: the \<^verbatim>\<open>&&\<close> chain of the fallback stops at the first call
  that fails.
\<close>

definition preallocate_file_sparse :: "int \<Rightarrow> nat \<Rightarrow> os \<Rightarrow> abort + (bool \<times> os)" where
  "preallocate_file_sparse h len s =
     (let success = (len = 0) in
      case (if \<not> success then tr_sys_file_preallocate h len True s else (success, s)) of
        (success, s1) \<Rightarrow>
          if \<not> success then
            (if \<not> len < 0x7FFFFFFFFFFFFFFF then Inl Assertion_failed
             else
               (case tr_sys_file_seek h (len - 1) s1 of
                  (False, s2) \<Rightarrow> Inr (False, s2)
                | (True, s2) \<Rightarrow>
                    (case tr_sys_file_write h 1 s2 of
                       (False, _, s3) \<Rightarrow> Inr (False, s3)
                     | (True, _, s3) \<Rightarrow>
                         (case tr_sys_file_truncate h len s3 of
                            (ok, _, s4) \<Rightarrow> Inr (ok, s4)))))
          else Inr (success, s1))"

text \<open>The \<^verbatim>\<open>while\<close> loop of \<^verbatim>\<open>preallocate_file_full\<close>: zero-filled blocks of 4096 bytes.\<close>

function preallocate_file_full_loop :: "int \<Rightarrow> nat \<Rightarrow> bool \<Rightarrow> os \<Rightarrow> bool \<times> os" where
  "preallocate_file_full_loop h len success s =
     (if success \<and> len > 0 then
        (case tr_sys_file_write h (min len 4096) s of
           (ok, bytes_written, s1) \<Rightarrow>
             preallocate_file_full_loop h (len - min len 4096)
               (ok \<and> bytes_written = min len 4096) s1)
      else (success, s))"
  by pat_completeness auto
termination
  by (relation "measure (\<lambda>(h, len, success, s). len)") auto

declare preallocate_file_full_loop.simps [simp del]

definition preallocate_file_full :: "string \<Rightarrow> nat \<Rightarrow> os \<Rightarrow> bool \<times> os" where
  "preallocate_file_full filename len s =
     (case tr_sys_file_open filename {TR_SYS_FILE_WRITE, TR_SYS_FILE_CREATE} s of
        (h, _, s1) \<Rightarrow>
          if h \<noteq> TR_BAD_SYS_FILE then
            (case tr_sys_file_preallocate h len False s1 of
               (success, s2) \<Rightarrow>
                 (case (if \<not> success then preallocate_file_full_loop h len True s2
                        else (success, s2)) of
                    (success, s3) \<Rightarrow> (success, tr_sys_file_close h s3)))
          else (False, s1))"

datatype tr_preallocation_mode =
    TR_PREALLOCATE_NONE | TR_PREALLOCATE_SPARSE | TR_PREALLOCATE_FULL

record tr_cached_file =
  is_writable :: bool
  fd :: int
  torrent_id :: int
  file_index :: nat
  used_at :: int

definition cached_file_is_open :: "tr_cached_file \<Rightarrow> bool" where
  "cached_file_is_open cf = (fd cf \<noteq> TR_BAD_SYS_FILE)"

definition cached_file_close :: "tr_cached_file \<Rightarrow> os \<Rightarrow> abort + (tr_cached_file \<times> os)" where
  "cached_file_close cf s =
     (if \<not> cached_file_is_open cf then Inl Assertion_failed
      else Inr (cf\<lparr>fd := TR_BAD_SYS_FILE\<rparr>, tr_sys_file_close (fd cf) s))"

text \<open>
  \<^verbatim>\<open>cached_file_open\<close> returns 0 or an errno value, with the slot and the system as it left
  them. The parameter \<open>writable\<close> is the function's own copy: \<^verbatim>\<open>writable |= resize_needed\<close>
  changes it here and not at the caller.
\<close>

definition cached_file_open ::
  "tr_cached_file \<Rightarrow> string \<Rightarrow> bool \<Rightarrow> tr_preallocation_mode \<Rightarrow> nat \<Rightarrow> os
     \<Rightarrow> abort + (int \<times> tr_cached_file \<times> os)" where
  "cached_file_open cf filename writable allocation file_size s =
     (case (if writable
            then (case tr_mkdirp (tr_sys_path_dirname filename) s of
                    (r, s1) \<Rightarrow> ((if r \<noteq> 0 then errno s1 else 0), s1))
            else (0, s)) of
        (err, s1) \<Rightarrow>
          if err \<noteq> 0 then Inr (err, cf, s1)
          else
            (let info = tr_sys_path_get_info filename s1;
                 already_existed =
                   (case info of None \<Rightarrow> False | Some i \<Rightarrow> type i = TR_SYS_PATH_IS_FILE);
                 s2 = (if writable \<and> \<not> already_existed \<and> allocation = TR_PREALLOCATE_FULL
                       then snd (preallocate_file_full filename file_size s1) else s1);
                 resize_needed =
                   (already_existed \<and> (case info of None \<Rightarrow> False | Some i \<Rightarrow> file_size < size i));
                 writable = (writable \<or> resize_needed);
                 flags = (if writable then {TR_SYS_FILE_WRITE, TR_SYS_FILE_CREATE} else {})
                           \<union> {TR_SYS_FILE_READ, TR_SYS_FILE_SEQUENTIAL}
             in case tr_sys_file_open filename flags s2 of
                  (h, code, s3) \<Rightarrow>
                    if h = TR_BAD_SYS_FILE then Inr (code, cf\<lparr>fd := h\<rparr>, s3)
                    else
                      (case (if resize_needed then tr_sys_file_truncate h file_size s3
                             else (True, 0, s3)) of
                         (False, code, s4) \<Rightarrow> Inr (code, cf\<lparr>fd := h\<rparr>, s4)
                       | (True, _, s4) \<Rightarrow>
                           if writable \<and> \<not> already_existed \<and> allocation = TR_PREALLOCATE_SPARSE
                           then (case preallocate_file_sparse h file_size s4 of
                                   Inl a \<Rightarrow> Inl a
                                 | Inr (_, s5) \<Rightarrow> Inr (0, cf\<lparr>fd := h\<rparr>, s5))
                           else Inr (0, cf\<lparr>fd := h\<rparr>, s4))))"


section \<open>The fileset\<close>

text \<open>
  \<^verbatim>\<open>struct tr_fileset\<close> is the array from \<^verbatim>\<open>begin\<close> to \<^verbatim>\<open>end\<close>: a list of slots. A pointer to
  a slot is its index. The empty list is the set whose \<^verbatim>\<open>begin\<close> is \<^verbatim>\<open>NULL\<close>.
\<close>

type_synonym tr_fileset = "tr_cached_file list"

definition TR_CACHED_FILE_INIT :: tr_cached_file where
  "TR_CACHED_FILE_INIT =
     \<lparr>is_writable = False, fd = TR_BAD_SYS_FILE, torrent_id = 0, file_index = 0, used_at = 0\<rparr>"

definition fileset_construct :: "nat \<Rightarrow> tr_fileset" where
  "fileset_construct n = replicate n TR_CACHED_FILE_INIT"

fun fileset_lookup :: "tr_fileset \<Rightarrow> int \<Rightarrow> nat \<Rightarrow> nat option" where
  "fileset_lookup [] tid i = None"
| "fileset_lookup (cf # rest) tid i =
     (if tid = torrent_id cf \<and> i = file_index cf \<and> cached_file_is_open cf then Some 0
      else map_option Suc (fileset_lookup rest tid i))"

text \<open>The first loop of \<^verbatim>\<open>fileset_get_empty_slot\<close>: the first slot that is not open.\<close>

fun find_unused_slot :: "tr_fileset \<Rightarrow> nat option" where
  "find_unused_slot [] = None"
| "find_unused_slot (cf # rest) =
     (if \<not> cached_file_is_open cf then Some 0 else map_option Suc (find_unused_slot rest))"

text \<open>
  The second loop: \<open>cull\<close> is the slot found so far with its index, \<open>k\<close> the index of the
  slot the loop is at.
\<close>

fun find_cull :: "tr_fileset \<Rightarrow> nat \<Rightarrow> (nat \<times> tr_cached_file) option
    \<Rightarrow> (nat \<times> tr_cached_file) option" where
  "find_cull [] k cull = cull"
| "find_cull (cf # rest) k cull =
     find_cull rest (Suc k)
       (case cull of
          None \<Rightarrow> Some (k, cf)
        | Some (j, c) \<Rightarrow> if used_at cf < used_at c then Some (k, cf) else cull)"

definition fileset_get_empty_slot :: "tr_fileset \<Rightarrow> os \<Rightarrow> abort + (nat option \<times> tr_fileset \<times> os)" where
  "fileset_get_empty_slot fs s =
     (if fs \<noteq> [] then
        (case find_unused_slot fs of
           Some k \<Rightarrow> Inr (Some k, fs, s)
         | None \<Rightarrow>
             (case find_cull fs 0 None of
                None \<Rightarrow> Inl Assertion_failed
              | Some (k, c) \<Rightarrow>
                  (case cached_file_close c s of
                     Inl a \<Rightarrow> Inl a
                   | Inr (c', s') \<Rightarrow> Inr (Some k, fs[k := c'], s'))))
      else Inr (None, fs, s))"

section \<open>Startup\<close>

record tr_fdInfo =
  peerCount :: int
  fileset :: tr_fileset

record tr_session =
  fdInfo :: "tr_fdInfo option"
  peerLimit :: int

definition FILE_CACHE_SIZE :: nat where
  "FILE_CACHE_SIZE = 32"

text \<open>
  \<^verbatim>\<open>ensureSessionFdInfoExists\<close>. \<^verbatim>\<open>old_limit\<close> and \<^verbatim>\<open>new_limit\<close> are C \<^verbatim>\<open>int\<close>s: the casts keep
  the low 32 bits. In \<^verbatim>\<open>MIN (limit.rlim_max, FD_SETSIZE)\<close> the \<^verbatim>\<open>int\<close> is converted to
  \<^verbatim>\<open>rlim_t\<close>, and the assignment \<^verbatim>\<open>limit.rlim_cur = new_limit\<close> converts it back, both with
  sign extension.
\<close>

definition ensureSessionFdInfoExists :: "tr_session \<Rightarrow> os \<Rightarrow> tr_session \<times> os" where
  "ensureSessionFdInfoExists session s =
     (if fdInfo session = None then
        (let i = \<lparr>peerCount = 0, fileset = fileset_construct FILE_CACHE_SIZE\<rparr>;
             session = session\<lparr>fdInfo := Some i\<rparr>
         in case getrlimit s of
              (r, limit, s1) \<Rightarrow>
                if r = 0 then
                  (let old_limit = (ucast (rlimit_cur limit) :: 32 word);
                       new_limit = (ucast (min (rlimit_max limit) (scast (fd_setsize s1))) :: 32 word)
                   in if new_limit \<noteq> old_limit then
                        (case setrlimit (limit\<lparr>rlimit_cur := scast new_limit\<rparr>) s1 of
                           (_, s2) \<Rightarrow> (case getrlimit s2 of (_, _, s3) \<Rightarrow> (session, s3)))
                      else (session, s1))
                else (session, s1))
      else (session, s))"

text \<open>
  \<^verbatim>\<open>get_fileset\<close> returns \<^verbatim>\<open>&session->fdInfo->fileset\<close>: here the fileset, with the session
  and the system as \<^verbatim>\<open>ensureSessionFdInfoExists\<close> left them. \<open>put_fileset\<close> is the write
  through that pointer.
\<close>

definition get_fileset :: "tr_session \<Rightarrow> os \<Rightarrow> abort + (tr_fileset \<times> tr_session \<times> os)" where
  "get_fileset session s =
     (case ensureSessionFdInfoExists session s of
        (session', s') \<Rightarrow>
          (case fdInfo session' of
             None \<Rightarrow> Inl Assertion_failed
           | Some i \<Rightarrow> Inr (fileset i, session', s')))"

definition put_fileset :: "tr_session \<Rightarrow> tr_fileset \<Rightarrow> tr_session" where
  "put_fileset session fs =
     session\<lparr>fdInfo := map_option (\<lambda>i. i\<lparr>fileset := fs\<rparr>) (fdInfo session)\<rparr>"

section \<open>Checkout and peek\<close>

definition tr_fdFileGetCached :: "tr_session \<Rightarrow> int \<Rightarrow> nat \<Rightarrow> bool \<Rightarrow> os
    \<Rightarrow> abort + (int \<times> tr_session \<times> os)" where
  "tr_fdFileGetCached session tid i writable s =
     (case get_fileset session s of
        Inl a \<Rightarrow> Inl a
      | Inr (fs, session, s) \<Rightarrow>
          (case fileset_lookup fs tid i of
             None \<Rightarrow> Inr (TR_BAD_SYS_FILE, session, s)
           | Some k \<Rightarrow>
               if writable \<and> \<not> is_writable (fs ! k) then Inr (TR_BAD_SYS_FILE, session, s)
               else Inr (fd (fs ! k),
                         put_fileset session (fs[k := (fs ! k)\<lparr>used_at := tr_time s\<rparr>]), s)))"

text \<open>
  \<^verbatim>\<open>tr_fdFileCheckout\<close> returns the descriptor, or \<open>TR_BAD_SYS_FILE\<close> with \<open>errno\<close> set. A null
  slot pointer (a set without slots) fails in \<^verbatim>\<open>cached_file_is_open\<close>.
\<close>

definition tr_fdFileCheckout ::
  "tr_session \<Rightarrow> int \<Rightarrow> nat \<Rightarrow> string \<Rightarrow> bool \<Rightarrow> tr_preallocation_mode \<Rightarrow> nat \<Rightarrow> os
     \<Rightarrow> abort + (int \<times> tr_session \<times> os)" where
  "tr_fdFileCheckout session tid i filename writable allocation file_size s =
     (case get_fileset session s of
        Inl a \<Rightarrow> Inl a
      | Inr (fs, session, s) \<Rightarrow>
          (case (case fileset_lookup fs tid i of
                   Some k \<Rightarrow>
                     if writable \<and> \<not> is_writable (fs ! k)
                     then (case cached_file_close (fs ! k) s of
                             Inl a \<Rightarrow> Inl a
                           | Inr (cf, s') \<Rightarrow> Inr (Some k, fs[k := cf], s'))
                     else Inr (Some k, fs, s)
                 | None \<Rightarrow> fileset_get_empty_slot fs s) of
             Inl a \<Rightarrow> Inl a
           | Inr (None, fs, s) \<Rightarrow> Inl Assertion_failed
           | Inr (Some k, fs, s) \<Rightarrow>
               (case (if \<not> cached_file_is_open (fs ! k)
                      then (case cached_file_open (fs ! k) filename writable allocation file_size s of
                              Inl a \<Rightarrow> Inl a
                            | Inr (err, cf, s') \<Rightarrow>
                                Inr (err,
                                     fs[k := (if err \<noteq> 0 then cf else cf\<lparr>is_writable := writable\<rparr>)],
                                     s'))
                      else Inr (0, fs, s)) of
                  Inl a \<Rightarrow> Inl a
                | Inr (err, fs, s) \<Rightarrow>
                    if err \<noteq> 0
                    then Inr (TR_BAD_SYS_FILE, put_fileset session fs, s\<lparr>errno := err\<rparr>)
                    else
                      (let cf = (fs ! k)\<lparr>torrent_id := tid, file_index := i, used_at := tr_time s\<rparr>
                       in Inr (fd cf, put_fileset session (fs[k := cf]), s)))))"

section \<open>Sockets\<close>

text \<open>
  \<^verbatim>\<open>tr_fdSocketCreate\<close>; \<^verbatim>\<open>peerCount\<close> is a C \<^verbatim>\<open>int\<close> that is incremented only below
  \<^verbatim>\<open>peerLimit\<close>, so the increment cannot overflow.
\<close>

definition tr_fdSocketCreate :: "tr_session \<Rightarrow> os \<Rightarrow> abort + (int \<times> tr_session \<times> os)" where
  "tr_fdSocketCreate session s =
     (case ensureSessionFdInfoExists session s of
        (session, s) \<Rightarrow>
          (case fdInfo session of
             None \<Rightarrow> Inl Assertion_failed
           | Some gFd \<Rightarrow>
               (case (if peerCount gFd < peerLimit session then socket s else (-1, s)) of
                  (sock, s) \<Rightarrow>
                    (let gFd = (if sock > -1 then gFd\<lparr>peerCount := peerCount gFd + 1\<rparr> else gFd)
                     in if \<not> peerCount gFd \<ge> 0 then Inl Assertion_failed
                        else Inr (sock, session\<lparr>fdInfo := Some gFd\<rparr>, s)))))"

definition tr_fdSocketClose :: "tr_session \<Rightarrow> int \<Rightarrow> os \<Rightarrow> abort + (tr_session \<times> os)" where
  "tr_fdSocketClose session sock s =
     (case fdInfo session of
        Some gFd \<Rightarrow>
          (case (if sock \<ge> 0
                 then (gFd\<lparr>peerCount := peerCount gFd - 1\<rparr>, tr_netCloseSocket sock s)
                 else (gFd, s)) of
             (gFd, s) \<Rightarrow>
               if \<not> peerCount gFd \<ge> 0 then Inl Assertion_failed
               else Inr (session\<lparr>fdInfo := Some gFd\<rparr>, s))
      | None \<Rightarrow> Inr (session, s))"

section \<open>Quantities the properties speak of\<close>

text \<open>The session's socket count; a session without \<^verbatim>\<open>fdInfo\<close> has opened none.\<close>

definition socket_count :: "tr_session \<Rightarrow> int" where
  "socket_count session = (case fdInfo session of None \<Rightarrow> 0 | Some gFd \<Rightarrow> peerCount gFd)"

text \<open>The system calls issued between two states of the system.\<close>

definition issued :: "os \<Rightarrow> os \<Rightarrow> os_call list" where
  "issued s s' = drop (length (calls s)) (calls s')"

text \<open>
  The limit \<^verbatim>\<open>ensureSessionFdInfoExists\<close> computes: \<^verbatim>\<open>MIN (limit.rlim_max, FD_SETSIZE)\<close>, as
  an \<^verbatim>\<open>rlim_t\<close>.
\<close>

definition negotiated_limit :: "os \<Rightarrow> 64 word" where
  "negotiated_limit s = min (rlim_max s) (scast (fd_setsize s))"

text \<open>
  The script lets the \<open>k\<close>-th of the next calls that can fail succeed (it has run out before
  that call, or its entry for the call is \<^verbatim>\<open>None\<close>).
\<close>

definition call_ok :: "nat \<Rightarrow> os \<Rightarrow> bool" where
  "call_ok k s = (length (faults s) \<le> k \<or> faults s ! k = None)"

text \<open>The next \<open>n\<close> calls that can fail are not made to fail by the script.\<close>

definition next_ok :: "nat \<Rightarrow> os \<Rightarrow> bool" where
  "next_ok n s = (\<forall>f \<in> set (take n (faults s)). f = None)"

text \<open>The test of \<^verbatim>\<open>fileset_lookup\<close>: the slot is open and carries the identity.\<close>

definition slot_matches :: "int \<Rightarrow> nat \<Rightarrow> tr_cached_file \<Rightarrow> bool" where
  "slot_matches tid i cf = (tid = torrent_id cf \<and> i = file_index cf \<and> cached_file_is_open cf)"

text \<open>The slot \<^verbatim>\<open>tr_fdFileCheckout\<close> settles on before it looks whether the slot is open: its first
  two statements, as they stand in its definition.\<close>

definition acquire_slot :: "tr_fileset \<Rightarrow> int \<Rightarrow> nat \<Rightarrow> bool \<Rightarrow> os
    \<Rightarrow> abort + (nat option \<times> tr_fileset \<times> os)" where
  "acquire_slot fs tid i writable s =
     (case fileset_lookup fs tid i of
        Some k \<Rightarrow>
          if writable \<and> \<not> is_writable (fs ! k)
          then (case cached_file_close (fs ! k) s of
                  Inl a \<Rightarrow> Inl a
                | Inr (cf, s') \<Rightarrow> Inr (Some k, fs[k := cf], s'))
          else Inr (Some k, fs, s)
      | None \<Rightarrow> fileset_get_empty_slot fs s)"

text \<open>The slots of a session; a session without \<^verbatim>\<open>fdInfo\<close> has none yet.\<close>

definition session_fileset :: "tr_session \<Rightarrow> tr_fileset" where
  "session_fileset session = (case fdInfo session of None \<Rightarrow> [] | Some i \<Rightarrow> fileset i)"

text \<open>No injected failure carries the code 0, which is no error code.\<close>

definition codes_nonzero :: "os \<Rightarrow> bool" where
  "codes_nonzero s = (Some 0 \<notin> set (faults s))"

text \<open>The flags \<^verbatim>\<open>cached_file_open\<close> opens with, from its final \<open>writable\<close>.\<close>

definition open_flags :: "bool \<Rightarrow> tr_sys_file_open_flags set" where
  "open_flags writable =
     (if writable then {TR_SYS_FILE_WRITE, TR_SYS_FILE_CREATE} else {})
       \<union> {TR_SYS_FILE_READ, TR_SYS_FILE_SEQUENTIAL}"

text \<open>The checkout is served from the cache: an open slot carries the identity and need not be
  reopened for writing.\<close>

definition cache_serves :: "tr_fileset \<Rightarrow> int \<Rightarrow> nat \<Rightarrow> bool \<Rightarrow> bool" where
  "cache_serves fs tid i writable =
     (case fileset_lookup fs tid i of
        None \<Rightarrow> False
      | Some k \<Rightarrow> \<not> (writable \<and> \<not> is_writable (fs ! k)))"

text \<open>The call that creates the parent directories, made for a writable request only.\<close>

definition mkdir_calls :: "bool \<Rightarrow> string \<Rightarrow> os_call list" where
  "mkdir_calls writable filename =
     (if writable then [MkdirP (tr_sys_path_dirname filename)] else [])"

text \<open>An open slot carries the identity and is recorded writable.\<close>

definition cached_writable :: "tr_fileset \<Rightarrow> int \<Rightarrow> nat \<Rightarrow> bool" where
  "cached_writable fs tid i =
     (case fileset_lookup fs tid i of None \<Rightarrow> False | Some k \<Rightarrow> is_writable (fs ! k))"

text \<open>
  A sequence of checkouts: each request is the arguments of one \<^verbatim>\<open>tr_fdFileCheckout\<close> call and
  the time the clock shows when it is made. The run returns the descriptors handed out, in
  order; it ends with the process when an assertion fails.
\<close>

datatype request =
  Checkout (at: int) int nat string bool tr_preallocation_mode nat

fun run_checkouts :: "request list \<Rightarrow> tr_session \<Rightarrow> os
    \<Rightarrow> abort + (int list \<times> tr_session \<times> os)" where
  "run_checkouts [] session s = Inr ([], session, s)"
| "run_checkouts (Checkout t tid i filename writable allocation file_size # rs) session s =
     (case tr_fdFileCheckout session tid i filename writable allocation file_size
             (s\<lparr>clock := t\<rparr>) of
        Inl a \<Rightarrow> Inl a
      | Inr (h, session', s') \<Rightarrow>
          (case run_checkouts rs session' s' of
             Inl a \<Rightarrow> Inl a
           | Inr (hs, session'', s'') \<Rightarrow> Inr (h # hs, session'', s'')))"

text \<open>A step of the system that only adds to the log of calls and opens no descriptor.\<close>

definition os_step :: "os \<Rightarrow> os \<Rightarrow> bool" where
  "os_step s s' = ((\<exists>xs. calls s' = calls s @ xs) \<and> dom (fds s') \<subseteq> dom (fds s))"

text \<open>The descriptors held by the open slots of a fileset.\<close>

definition owned :: "tr_fileset \<Rightarrow> int set" where
  "owned fs = fd ` {cf \<in> set fs. cached_file_is_open cf}"

text \<open>The open slots of a session.\<close>

definition open_slots :: "tr_session \<Rightarrow> tr_cached_file list" where
  "open_slots session = filter cached_file_is_open (session_fileset session)"

text \<open>A step of the system that adds to the log of calls and opens at most the descriptor \<open>h\<close>.\<close>

definition opened_step :: "os \<Rightarrow> int \<Rightarrow> os \<Rightarrow> bool" where
  "opened_step s h s' =
     ((\<exists>xs. calls s' = calls s @ xs) \<and>
      (h = TR_BAD_SYS_FILE \<and> dom (fds s') \<subseteq> dom (fds s) \<or>
       h \<noteq> TR_BAD_SYS_FILE \<and> dom (fds s') \<subseteq> insert h (dom (fds s))))"

text \<open>The three stages of \<^verbatim>\<open>cached_file_open\<close>, cut out of its definition as they stand there:
  creating the parent directories,\<close>

definition mkdir_stage :: "string \<Rightarrow> bool \<Rightarrow> os \<Rightarrow> int \<times> os" where
  "mkdir_stage filename writable s =
     (if writable
      then (case tr_mkdirp (tr_sys_path_dirname filename) s of
              (r, s1) \<Rightarrow> ((if r \<noteq> 0 then errno s1 else 0), s1))
      else (0, s))"

text \<open>looking at the file and preallocating it in full,\<close>

definition prepare_stage :: "string \<Rightarrow> bool \<Rightarrow> tr_preallocation_mode \<Rightarrow> nat \<Rightarrow> os
    \<Rightarrow> bool \<times> bool \<times> os" where
  "prepare_stage filename writable allocation file_size s1 =
     (let info = tr_sys_path_get_info filename s1;
          already_existed =
            (case info of None \<Rightarrow> False | Some i \<Rightarrow> type i = TR_SYS_PATH_IS_FILE);
          s2 = (if writable \<and> \<not> already_existed \<and> allocation = TR_PREALLOCATE_FULL
                then snd (preallocate_file_full filename file_size s1) else s1);
          resize_needed =
            (already_existed \<and> (case info of None \<Rightarrow> False | Some i \<Rightarrow> file_size < size i))
      in (already_existed, resize_needed, s2))"

text \<open>and opening, truncating and preallocating sparsely.\<close>

definition open_stage ::
  "tr_cached_file \<Rightarrow> string \<Rightarrow> bool \<Rightarrow> tr_preallocation_mode \<Rightarrow> nat \<Rightarrow> bool \<Rightarrow> bool \<Rightarrow> os
     \<Rightarrow> abort + (int \<times> tr_cached_file \<times> os)" where
  "open_stage cf filename writable allocation file_size already_existed resize_needed s2 =
     (let writable = (writable \<or> resize_needed);
          flags = (if writable then {TR_SYS_FILE_WRITE, TR_SYS_FILE_CREATE} else {})
                    \<union> {TR_SYS_FILE_READ, TR_SYS_FILE_SEQUENTIAL}
      in case tr_sys_file_open filename flags s2 of
           (h, code, s3) \<Rightarrow>
             if h = TR_BAD_SYS_FILE then Inr (code, cf\<lparr>fd := h\<rparr>, s3)
             else
               (case (if resize_needed then tr_sys_file_truncate h file_size s3
                      else (True, 0, s3)) of
                  (False, code, s4) \<Rightarrow> Inr (code, cf\<lparr>fd := h\<rparr>, s4)
                | (True, _, s4) \<Rightarrow>
                    if writable \<and> \<not> already_existed \<and> allocation = TR_PREALLOCATE_SPARSE
                    then (case preallocate_file_sparse h file_size s4 of
                            Inl a \<Rightarrow> Inl a
                          | Inr (_, s5) \<Rightarrow> Inr (0, cf\<lparr>fd := h\<rparr>, s5))
                    else Inr (0, cf\<lparr>fd := h\<rparr>, s4)))"

text \<open>
  Every descriptor that is open in the system is held by an open slot of the session, and the
  session has no more slots than the cache size.
\<close>

definition holds_descriptors :: "tr_session \<Rightarrow> os \<Rightarrow> bool" where
  "holds_descriptors session s =
     (length (session_fileset session) \<le> FILE_CACHE_SIZE \<and>
      dom (fds s) \<subseteq> owned (session_fileset session))"

section \<open>Example states\<close>

definition example_os :: os where
  "example_os =
     \<lparr>files = [''/t/a'' \<mapsto> 10, ''/t/d'' \<mapsto> 2048, ''/t/e'' \<mapsto> 10], fds = Map.empty, socks = {},
      next_fd = 3, clock = 100, errno = 0, faults = [], calls = [],
      rlim_cur = 1024, rlim_max = 4096, fd_setsize = 1024\<rparr>"

definition example_session :: "int \<Rightarrow> int \<Rightarrow> tr_session" where
  "example_session n limit =
     \<lparr>fdInfo = Some \<lparr>peerCount = n, fileset = fileset_construct FILE_CACHE_SIZE\<rparr>,
      peerLimit = limit\<rparr>"

definition fresh_session :: "int \<Rightarrow> tr_session" where
  "fresh_session limit = \<lparr>fdInfo = None, peerLimit = limit\<rparr>"

text \<open>
  A system with one writable descriptor, 3, on the empty file \<^verbatim>\<open>/t/n\<close>, that rejects the next
  call (as a file system without \<^verbatim>\<open>fallocate\<close> rejects a preallocation).
\<close>

definition sparse_os :: os where
  "sparse_os =
     example_os\<lparr>files := (files example_os)(''/t/n'' \<mapsto> 0),
                fds := [3 \<mapsto> \<lparr>path = ''/t/n'', wr = True, pos = 0\<rparr>],
                next_fd := 4, faults := [Some 95]\<rparr>"

text \<open>
  The file \<^verbatim>\<open>/t/d\<close>, 2048 bytes long, checked out read-only with its own size and then
  again with the target size 1024.
\<close>

definition cached_requests :: "request list" where
  "cached_requests =
     [Checkout 101 4 0 ''/t/d'' False TR_PREALLOCATE_NONE 2048,
      Checkout 102 4 0 ''/t/d'' False TR_PREALLOCATE_NONE 1024]"

text \<open>
  The file \<^verbatim>\<open>/t/a\<close> checked out read-only and then writable, and checked out writable and
  then read-only, each time from a session that holds no open file.
\<close>

definition read_only_first :: "abort + (int \<times> tr_session \<times> os)" where
  "read_only_first =
     tr_fdFileCheckout (example_session 0 2) 1 0 ''/t/a'' False TR_PREALLOCATE_NONE 10 example_os"

definition writable_second :: "abort + (int \<times> tr_session \<times> os)" where
  "writable_second =
     tr_fdFileCheckout (fst (snd (projr read_only_first))) 1 0 ''/t/a'' True TR_PREALLOCATE_NONE 10
       ((snd (snd (projr read_only_first)))\<lparr>clock := 101\<rparr>)"

definition writable_first :: "abort + (int \<times> tr_session \<times> os)" where
  "writable_first =
     tr_fdFileCheckout (example_session 0 2) 1 0 ''/t/a'' True TR_PREALLOCATE_NONE 10 example_os"

definition read_only_second :: "abort + (int \<times> tr_session \<times> os)" where
  "read_only_second =
     tr_fdFileCheckout (fst (snd (projr writable_first))) 1 0 ''/t/a'' False TR_PREALLOCATE_NONE 10
       ((snd (snd (projr writable_first)))\<lparr>clock := 101\<rparr>)"

text \<open>
  The file \<^verbatim>\<open>/t/d\<close>, 2048 bytes long, checked out read-only with the target size 1024, and
  then checked out writable.
\<close>

definition resized_first :: "abort + (int \<times> tr_session \<times> os)" where
  "resized_first =
     tr_fdFileCheckout (example_session 0 2) 4 0 ''/t/d'' False TR_PREALLOCATE_NONE 1024 example_os"

definition resized_second :: "abort + (int \<times> tr_session \<times> os)" where
  "resized_second =
     tr_fdFileCheckout (fst (snd (projr resized_first))) 4 0 ''/t/d'' True TR_PREALLOCATE_NONE 1024
       (snd (snd (projr resized_first)))"

text \<open>
  Thirty-two identities checked out one after the other fill every slot; the checkout of one
  more identity has to evict.
\<close>

definition fill_requests :: "request list" where
  "fill_requests =
     map (\<lambda>k. Checkout (100 + int k) (int k) 0 ''/t/a'' False TR_PREALLOCATE_NONE 10) [1..<33]"

definition full_state :: "abort + (int list \<times> tr_session \<times> os)" where
  "full_state = run_checkouts fill_requests (example_session 0 2) example_os"

definition evicting_checkout :: "abort + (int \<times> tr_session \<times> os)" where
  "evicting_checkout =
     tr_fdFileCheckout (fst (snd (projr full_state))) 40 0 ''/t/e'' False TR_PREALLOCATE_NONE 10
       ((snd (snd (projr full_state)))\<lparr>clock := 200\<rparr>)"

text \<open>
  The file of 2048 bytes is checked out read-only with its own size, then again, from the
  state the first checkout left, with the target size 1024.
\<close>

definition cached_first :: "abort + (int \<times> tr_session \<times> os)" where
  "cached_first =
     tr_fdFileCheckout (example_session 0 2) 4 0 ''/t/d'' False TR_PREALLOCATE_NONE 2048 example_os"

definition cached_second :: "abort + (int \<times> tr_session \<times> os)" where
  "cached_second =
     tr_fdFileCheckout (fst (snd (projr cached_first))) 4 0 ''/t/d'' False TR_PREALLOCATE_NONE 1024
       (snd (snd (projr cached_first)))"

text \<open>
  The file \<^verbatim>\<open>/t/a\<close> checked out writable, then read-only, then writable again.
\<close>

definition upgrade_cached_requests :: "request list" where
  "upgrade_cached_requests =
     [Checkout 101 1 0 ''/t/a'' True TR_PREALLOCATE_NONE 10,
      Checkout 102 1 0 ''/t/a'' False TR_PREALLOCATE_NONE 10,
      Checkout 103 1 0 ''/t/a'' True TR_PREALLOCATE_NONE 10]"

text \<open>
  A truncate that fails after the open succeeded. The file \<^verbatim>\<open>/t/a\<close> is checked out read-only
  and then writable; the writable open fails with \<^verbatim>\<open>EACCES\<close> (13), which leaves the slot closed
  under its identity. The slot is taken next for the file \<^verbatim>\<open>/t/d\<close>, 2048 bytes long, with the
  target size 1024: the open succeeds and the truncate fails with \<^verbatim>\<open>EIO\<close> (5).
\<close>

definition leak_os :: os where
  "leak_os = example_os\<lparr>faults := [None, None, Some 13, None, Some 5]\<rparr>"

definition leak_requests :: "request list" where
  "leak_requests =
     [Checkout 101 1 0 ''/t/a'' False TR_PREALLOCATE_NONE 10,
      Checkout 102 1 0 ''/t/a'' True TR_PREALLOCATE_NONE 10,
      Checkout 103 4 0 ''/t/d'' False TR_PREALLOCATE_NONE 1024]"

definition leak_state :: "abort + (int list \<times> tr_session \<times> os)" where
  "leak_state = run_checkouts leak_requests (example_session 0 2) leak_os"

text \<open>
  The same failure with two slots in play: the files \<^verbatim>\<open>/t/e\<close> and \<^verbatim>\<open>/t/a\<close> are checked out
  read-only, the writable opens of both fail with \<^verbatim>\<open>EACCES\<close>, \<^verbatim>\<open>/t/a\<close> is checked out
  read-only again, and the checkout of \<^verbatim>\<open>/t/d\<close> with the target size 1024 opens the file and
  fails to truncate it.
\<close>

definition dup_os :: os where
  "dup_os = example_os\<lparr>faults := [None, None, None, Some 13, None, Some 13, None, None, Some 5]\<rparr>"

definition dup_requests :: "request list" where
  "dup_requests =
     [Checkout 101 5 0 ''/t/e'' False TR_PREALLOCATE_NONE 10,
      Checkout 102 1 0 ''/t/a'' False TR_PREALLOCATE_NONE 10,
      Checkout 103 1 0 ''/t/a'' True TR_PREALLOCATE_NONE 10,
      Checkout 104 5 0 ''/t/e'' True TR_PREALLOCATE_NONE 10,
      Checkout 105 1 0 ''/t/a'' False TR_PREALLOCATE_NONE 10,
      Checkout 106 4 0 ''/t/d'' False TR_PREALLOCATE_NONE 1024]"

definition dup_state :: "abort + (int list \<times> tr_session \<times> os)" where
  "dup_state = run_checkouts dup_requests (example_session 0 2) dup_os"


section \<open>Startup and sockets\<close>

lemma ensure_cases:
  "ensureSessionFdInfoExists session s = (session', s') \<Longrightarrow>
     socket_count session' = socket_count session \<and> peerLimit session' = peerLimit session \<and>
     fdInfo session' \<noteq> None \<and> socks s' = socks s \<and> fds s' = fds s \<and> files s' = files s \<and>
     next_fd s' = next_fd s \<and> clock s' = clock s \<and>
     (\<exists>xs. calls s' = calls s @ xs \<and> set xs \<subseteq> insert GetRlimit (range SetRlimit)) \<and>
     (faults s = [] \<longrightarrow> faults s' = []) \<and>
     (fdInfo session \<noteq> None \<longrightarrow> session' = session \<and> s' = s)"
  by (auto simp: ensureSessionFdInfoExists_def socket_count_def getrlimit_def setrlimit_def
      take_fault_def log_call_def Let_def split: if_splits list.splits option.splits prod.splits)


lemma socket_create_refused:
  assumes "peerLimit session \<le> socket_count session" "0 \<le> socket_count session"
  shows "\<exists>session' s'. tr_fdSocketCreate session s = Inr (- 1, session', s') \<and>
           socket_count session' = socket_count session \<and> socks s' = socks s \<and>
           CreateSocket \<notin> set (issued s s') \<and> ensureSessionFdInfoExists session s = (session', s')"
proof -
  obtain session1 s1 where e: "ensureSessionFdInfoExists session s = (session1, s1)"
    by (cases "ensureSessionFdInfoExists session s")
  note f = ensure_cases [OF e]
  from f obtain gFd where g: "fdInfo session1 = Some gFd" by auto
  from f obtain xs where xs: "calls s1 = calls s @ xs" "set xs \<subseteq> insert GetRlimit (range SetRlimit)"
    by auto
  have "session1\<lparr>fdInfo := Some gFd\<rparr> = session1" using g by simp
  moreover have "CreateSocket \<notin> set (issued s s1)" using xs by (auto simp: issued_def)
  ultimately show ?thesis
    using assms e f g by (auto simp: tr_fdSocketCreate_def socket_count_def)
qed

lemma socket_cases:
  "socket s = (r, s') \<Longrightarrow>
     calls s' = calls s @ [CreateSocket] \<and>
     (r = - 1 \<and> socks s' = socks s \<or> 0 \<le> r \<and> socks s' = insert r (socks s)) \<and>
     (faults s = [] \<longrightarrow> faults s' = [] \<and> 0 \<le> r)"
  by (auto simp: socket_def take_fault_def log_call_def split: list.splits option.splits)

lemma socket_create_result:
  assumes "tr_fdSocketCreate session s = Inr (r, session', s')"
  shows "socket_count session' = socket_count session + (if 0 \<le> r then 1 else 0) \<and>
         socks s' = (if 0 \<le> r then insert r (socks s) else socks s) \<and>
         (0 \<le> r \<longrightarrow> socket_count session < peerLimit session \<and> CreateSocket \<in> set (issued s s')) \<and>
         (r < 0 \<longrightarrow> r = - 1) \<and> peerLimit session' = peerLimit session \<and> fdInfo session' \<noteq> None
        \<and> (faults s = [] \<longrightarrow> faults s' = [] \<and> (0 \<le> r \<longleftrightarrow> socket_count session < peerLimit session))"
proof -
  obtain session1 s1 where e: "ensureSessionFdInfoExists session s = (session1, s1)"
    by (cases "ensureSessionFdInfoExists session s")
  note f = ensure_cases [OF e]
  from f obtain gFd where g: "fdInfo session1 = Some gFd" by auto
  from f obtain xs where xs: "calls s1 = calls s @ xs" "set xs \<subseteq> insert GetRlimit (range SetRlimit)"
    by auto
  have n: "CreateSocket \<notin> set xs" using xs by auto
  have c: "socket_count session = peerCount gFd" "peerLimit session1 = peerLimit session"
    "socks s1 = socks s" "faults s = [] \<longrightarrow> faults s1 = []"
    using f g by (auto simp: socket_count_def)
  show ?thesis
  proof (cases "peerCount gFd < peerLimit session")
    case False
    then have "r = - 1" "session' = session1\<lparr>fdInfo := Some gFd\<rparr>" "s' = s1"
      using assms e g c by (auto simp: tr_fdSocketCreate_def split: if_splits)
    then show ?thesis using False c g by (simp add: socket_count_def)
  next
    case True
    obtain r2 s2 where so: "socket s1 = (r2, s2)" by (cases "socket s1")
    note sc = socket_cases [OF so]
    have "r = r2" "s' = s2"
      "session' = session1\<lparr>fdInfo := Some (if r2 > - 1 then gFd\<lparr>peerCount := peerCount gFd + 1\<rparr> else gFd)\<rparr>"
      using assms e g c True so by (auto simp: tr_fdSocketCreate_def Let_def split: if_splits)
    then show ?thesis using True c g sc xs(1) n
      by (auto simp: socket_count_def issued_def)
  qed
qed

lemma socket_create_total:
  assumes "0 \<le> socket_count session"
  shows "\<exists>r session' s'. tr_fdSocketCreate session s = Inr (r, session', s')"
proof -
  obtain session1 s1 where e: "ensureSessionFdInfoExists session s = (session1, s1)"
    by (cases "ensureSessionFdInfoExists session s")
  note f = ensure_cases [OF e]
  from f obtain gFd where g: "fdInfo session1 = Some gFd" by auto
  show ?thesis
    using assms e f g
    by (auto simp: tr_fdSocketCreate_def socket_count_def socket_def take_fault_def log_call_def
        split: if_splits list.splits option.splits)
qed

lemma socket_close_result:
  assumes "fdInfo session \<noteq> None" "0 \<le> r" "0 < socket_count session"
  shows "\<exists>session' s'. tr_fdSocketClose session r s = Inr (session', s') \<and>
     socket_count session' = socket_count session - 1 \<and> socks s' = socks s - {r} \<and>
     peerLimit session' = peerLimit session \<and> faults s' = faults s \<and>
     issued s s' = [CloseSocket r]"
  using assms
  by (auto simp: tr_fdSocketClose_def socket_count_def tr_netCloseSocket_def log_call_def issued_def)

lemma socket_create_attempt:
  assumes "tr_fdSocketCreate session s = Inr (r, session', s')"
    "socket_count session < peerLimit session"
  shows "CreateSocket \<in> set (issued s s')"
proof -
  obtain session1 s1 where e: "ensureSessionFdInfoExists session s = (session1, s1)"
    by (cases "ensureSessionFdInfoExists session s")
  note f = ensure_cases [OF e]
  from f obtain gFd where g: "fdInfo session1 = Some gFd" by auto
  from f obtain xs where xs: "calls s1 = calls s @ xs" by auto
  have c: "socket_count session = peerCount gFd" "peerLimit session1 = peerLimit session"
    using f g by (auto simp: socket_count_def)
  obtain r2 s2 where so: "socket s1 = (r2, s2)" by (cases "socket s1")
  note sc = socket_cases [OF so]
  have "s' = s2"
    using assms e g c so by (auto simp: tr_fdSocketCreate_def Let_def split: if_splits)
  then show ?thesis using sc xs by (simp add: issued_def)
qed


section \<open>The descriptor limit\<close>

lemma scast_pos:
  assumes "0 < sint (f::32 word)"
  shows "uint (scast f :: 64 word) = sint f"
proof -
  have a: "uint (scast f :: 64 word) = take_bit LENGTH(64) (sint f)"
    by (metis scast_eq uint_word_of_int_eq)
  have "sint f < 2 ^ (LENGTH(32) - 1)" by (rule sint_lt)
  then have "sint f < 2 ^ 31" by simp
  moreover have "(2::int) ^ 31 < 2 ^ LENGTH(64)" by simp
  ultimately have b: "sint f < 2 ^ LENGTH(64)" by (rule less_trans)
  from assms have c: "0 \<le> sint f" by simp
  show ?thesis unfolding a using c b by (rule take_bit_int_eq_self)
qed

lemma narrow_back:
  assumes "0 < sint (f::32 word)" "(n::64 word) \<le> scast f"
  shows "(scast (ucast n :: 32 word) :: 64 word) = n"
proof -
  have "uint n \<le> uint (scast f :: 64 word)" using assms(2) by (simp only: word_le_def)
  then have u: "uint n \<le> sint f" by (simp only: scast_pos [OF assms(1)])
  have "sint f < 2 ^ (LENGTH(32) - 1)" by (rule sint_lt)
  then have b: "uint n < 2 ^ 31" using u by simp
  have n0: "- (2 ^ 31) \<le> uint n"
  proof -
    have "- ((2::int) ^ 31) \<le> 0" by simp
    also have "0 \<le> uint n" by simp
    finally show ?thesis .
  qed
  have "sint (ucast n :: 32 word) = signed_take_bit (LENGTH(32) - Suc 0) (uint n)"
    by (rule signed_ucast_eq)
  also have "\<dots> = signed_take_bit 31 (uint n)" by simp
  also have "\<dots> = uint n"
    using n0 b by (rule signed_take_bit_int_eq_self)
  finally have s: "sint (ucast n :: 32 word) = uint n" .
  have "(scast (ucast n :: 32 word) :: 64 word) = word_of_int (sint (ucast n :: 32 word))"
    by (rule scast_eq)
  also have "\<dots> = word_of_int (uint n)" by (simp only: s)
  also have "\<dots> = n" by (rule word_of_int_uint)
  finally show ?thesis .
qed

lemma ensure_fresh:
  assumes "fdInfo session = None" "faults s = []" "0 < sint (fd_setsize s)"
  shows "rlim_cur (snd (ensureSessionFdInfoExists session s)) =
           (if (ucast (negotiated_limit s) :: 32 word) \<noteq> ucast (rlim_cur s)
            then negotiated_limit s else rlim_cur s) \<and>
         rlim_max (snd (ensureSessionFdInfoExists session s)) = rlim_max s"
proof -
  have le: "negotiated_limit s \<le> scast (fd_setsize s)" "negotiated_limit s \<le> rlim_max s"
    by (simp_all add: negotiated_limit_def)
  have k: "(scast (ucast (negotiated_limit s) :: 32 word) :: 64 word) = negotiated_limit s"
    using assms(3) le(1) by (rule narrow_back)
  have g: "getrlimit s = (0, \<lparr>rlimit_cur = rlim_cur s, rlimit_max = rlim_max s\<rparr>,
      s\<lparr>calls := calls s @ [GetRlimit]\<rparr>)"
    using assms(2) by (simp add: getrlimit_def take_fault_def log_call_def)
  have st: "setrlimit \<lparr>rlimit_cur = negotiated_limit s, rlimit_max = rlim_max s\<rparr>
      (s\<lparr>calls := calls s @ [GetRlimit]\<rparr>) =
       (0, s\<lparr>calls := calls s @ [GetRlimit, SetRlimit (negotiated_limit s)],
             rlim_cur := negotiated_limit s\<rparr>)"
    using assms(2) le(2) by (simp add: setrlimit_def take_fault_def log_call_def)
  have g2: "getrlimit (s\<lparr>calls := calls s @ [GetRlimit, SetRlimit (negotiated_limit s)],
             rlim_cur := negotiated_limit s\<rparr>) =
      (0, \<lparr>rlimit_cur = negotiated_limit s, rlimit_max = rlim_max s\<rparr>,
       s\<lparr>calls := calls s @ [GetRlimit, SetRlimit (negotiated_limit s), GetRlimit],
             rlim_cur := negotiated_limit s\<rparr>)"
    using assms(2) by (simp add: getrlimit_def take_fault_def log_call_def)
  show ?thesis
    using assms(1) k
    by (simp add: ensureSessionFdInfoExists_def g Let_def negotiated_limit_def [symmetric] st g2)
qed

lemma getrlimit_result:
  "getrlimit s =
     (if call_ok 0 s
      then (0, \<lparr>rlimit_cur = rlim_cur s, rlimit_max = rlim_max s\<rparr>,
            s\<lparr>faults := tl (faults s), calls := calls s @ [GetRlimit]\<rparr>)
      else (- 1, \<lparr>rlimit_cur = 0, rlimit_max = 0\<rparr>,
            s\<lparr>faults := tl (faults s), calls := calls s @ [GetRlimit],
              errno := the (hd (faults s))\<rparr>))"
  by (cases "faults s")
     (auto simp: getrlimit_def take_fault_def log_call_def call_ok_def split: option.splits)

lemma getrlimit_keeps_limit: "rlim_cur (snd (snd (getrlimit s))) = rlim_cur s"
  by (simp add: getrlimit_result)

lemma setrlimit_result:
  assumes "c \<le> rlim_max s"
  shows "rlim_cur (snd (setrlimit \<lparr>rlimit_cur = c, rlimit_max = rlim_max s\<rparr> s)) =
           (if call_ok 0 s then c else rlim_cur s)"
  using assms
  by (cases "faults s")
     (auto simp: setrlimit_def take_fault_def log_call_def call_ok_def split: option.splits)

lemma call_ok_tl: "call_ok 0 (s\<lparr>faults := tl (faults s), calls := c\<rparr>) = call_ok 1 s"
  by (cases "faults s") (auto simp: call_ok_def)


section \<open>System calls that succeed\<close>

lemma next_ok_upd [simp]:
  "next_ok n (s\<lparr>calls := c\<rparr>) = next_ok n s"
  "next_ok n (s\<lparr>fds := d\<rparr>) = next_ok n s"
  "next_ok n (s\<lparr>files := fl\<rparr>) = next_ok n s"
  "next_ok n (s\<lparr>faults := fs\<rparr>) = (\<forall>f \<in> set (take n fs). f = None)"
  by (simp_all add: next_ok_def)

lemma take_fault_ok:
  "next_ok (Suc n) s \<Longrightarrow> take_fault s = (None, s\<lparr>faults := tl (faults s)\<rparr>)"
  by (cases "faults s") (auto simp: take_fault_def next_ok_def)

lemma next_ok_tl [simp]:
  "next_ok (Suc n) s \<Longrightarrow> next_ok n (s\<lparr>faults := tl (faults s)\<rparr>)"
  by (cases "faults s") (auto simp: next_ok_def)

lemma next_ok_log [simp]: "next_ok n (log_call c s) = next_ok n s"
  by (simp add: next_ok_def log_call_def)

lemma take_fault_log_ok:
  "next_ok (Suc n) s \<Longrightarrow>
     take_fault (log_call c s) = (None, s\<lparr>faults := tl (faults s), calls := calls s @ [c]\<rparr>)"
  using take_fault_ok [of n "log_call c s"] by (simp add: log_call_def)

lemma seek_ok:
  assumes "next_ok (Suc n) s" "fds s h = Some en"
  shows "tr_sys_file_seek h off s =
     (True, s\<lparr>faults := tl (faults s), calls := calls s @ [Seek h off],
              fds := (fds s)(h \<mapsto> en\<lparr>pos := off\<rparr>)\<rparr>)"
  using assms by (simp add: tr_sys_file_seek_def take_fault_log_ok)

lemma write_ok:
  assumes "next_ok (Suc n) s" "fds s h = Some en" "wr en"
  shows "tr_sys_file_write h k s =
     (True, k, s\<lparr>faults := tl (faults s), calls := calls s @ [WriteBytes h k],
              files := (files s)(path en \<mapsto>
                         max (pos en + k) (case files s (path en) of None \<Rightarrow> 0 | Some m \<Rightarrow> m)),
              fds := (fds s)(h \<mapsto> en\<lparr>pos := pos en + k\<rparr>)\<rparr>)"
  using assms by (simp add: tr_sys_file_write_def take_fault_log_ok)

lemma truncate_ok:
  assumes "next_ok (Suc n) s" "fds s h = Some en" "wr en"
  shows "tr_sys_file_truncate h k s =
     (True, 0, s\<lparr>faults := tl (faults s), calls := calls s @ [Truncate h k],
              files := (files s)(path en \<mapsto> k)\<rparr>)"
  using assms by (simp add: tr_sys_file_truncate_def take_fault_log_ok)

lemma next_ok_mono: "next_ok (Suc n) s \<Longrightarrow> next_ok n s"
  using set_take_subset_set_take [of n "Suc n" "faults s"] by (auto simp: next_ok_def)

lemma prealloc_rejected:
  assumes "faults s = Some e # fs"
  shows "tr_sys_file_preallocate h len sp s =
     (False, s\<lparr>faults := fs, calls := calls s @ [Preallocate h len sp]\<rparr>)"
  using assms by (simp add: tr_sys_file_preallocate_def take_fault_def log_call_def)


section \<open>The fileset and the checkout\<close>

lemma lookup_Some:
  "fileset_lookup fs tid i = Some k \<Longrightarrow>
     k < length fs \<and> slot_matches tid i (fs ! k) \<and> (\<forall>j<k. \<not> slot_matches tid i (fs ! j))"
proof (induction fs arbitrary: k)
  case Nil
  then show ?case by simp
next
  case (Cons cf fs)
  show ?case
  proof (cases "slot_matches tid i cf")
    case True
    with Cons.prems show ?thesis by (simp add: slot_matches_def)
  next
    case False
    with Cons.prems obtain k' where k': "fileset_lookup fs tid i = Some k'" "k = Suc k'"
      by (auto simp: slot_matches_def)
    from Cons.IH [OF k'(1)] False k'(2) show ?thesis
      by (auto simp: less_Suc_eq_0_disj)
  qed
qed

lemma lookup_None:
  "fileset_lookup fs tid i = None \<longleftrightarrow> (\<forall>cf \<in> set fs. \<not> slot_matches tid i cf)"
  by (induction fs) (auto simp: slot_matches_def)

lemma lookup_first:
  "k < length fs \<Longrightarrow> slot_matches tid i (fs ! k) \<Longrightarrow> \<forall>j<k. \<not> slot_matches tid i (fs ! j) \<Longrightarrow>
     fileset_lookup fs tid i = Some k"
proof (induction fs arbitrary: k)
  case Nil
  then show ?case by simp
next
  case (Cons cf fs)
  show ?case
  proof (cases k)
    case 0
    with Cons.prems show ?thesis by (simp add: slot_matches_def)
  next
    case (Suc k')
    with Cons.prems have "\<not> slot_matches tid i cf" by auto
    moreover have "fileset_lookup fs tid i = Some k'"
      using Cons.prems Suc by (intro Cons.IH) auto
    ultimately show ?thesis using Suc by (simp add: slot_matches_def)
  qed
qed

lemma unused_Some:
  "find_unused_slot fs = Some k \<Longrightarrow>
     k < length fs \<and> \<not> cached_file_is_open (fs ! k) \<and> (\<forall>j<k. cached_file_is_open (fs ! j))"
proof (induction fs arbitrary: k)
  case Nil
  then show ?case by simp
next
  case (Cons cf fs)
  show ?case
  proof (cases "cached_file_is_open cf")
    case False
    with Cons.prems show ?thesis by simp
  next
    case True
    with Cons.prems obtain k' where k': "find_unused_slot fs = Some k'" "k = Suc k'"
      by auto
    from Cons.IH [OF k'(1)] True k'(2) show ?thesis
      by (auto simp: less_Suc_eq_0_disj)
  qed
qed

lemma unused_None:
  "find_unused_slot fs = None \<longleftrightarrow> (\<forall>cf \<in> set fs. cached_file_is_open cf)"
  by (induction fs) auto

text \<open>The loop keeps: the slot found so far is at its index and is the oldest seen.\<close>

lemma find_cull_inv:
  assumes "find_cull rest k cull = r" "k + length rest = length fs" "rest = drop k fs"
    "case cull of None \<Rightarrow> k = 0
     | Some (j, c) \<Rightarrow> j < k \<and> c = fs ! j \<and> (\<forall>m<k. used_at c \<le> used_at (fs ! m))"
    "fs \<noteq> []"
  shows "\<exists>j. r = Some (j, fs ! j) \<and> j < length fs \<and> (\<forall>m<length fs. used_at (fs ! j) \<le> used_at (fs ! m))"
  using assms
proof (induction rest arbitrary: k cull)
  case Nil
  then show ?case by (cases cull) auto
next
  case (Cons cf rest)
  have kl: "k < length fs" using Cons.prems(2) by simp
  have cf: "cf = fs ! k" "rest = drop (Suc k) fs"
  proof -
    have "cf # rest = fs ! k # drop (Suc k) fs"
      using Cons.prems(3) Cons_nth_drop_Suc [OF kl] by simp
    then show "cf = fs ! k" "rest = drop (Suc k) fs" by simp_all
  qed
  let ?cull' = "(case cull of None \<Rightarrow> Some (k, cf)
        | Some (j, c) \<Rightarrow> if used_at cf < used_at c then Some (k, cf) else cull)"
  have "find_cull rest (Suc k) ?cull' = r" using Cons.prems(1) by simp
  moreover have "Suc k + length rest = length fs" using Cons.prems(2) by simp
  moreover have "case ?cull' of None \<Rightarrow> Suc k = 0
     | Some (j, c) \<Rightarrow> j < Suc k \<and> c = fs ! j \<and> (\<forall>m<Suc k. used_at c \<le> used_at (fs ! m))"
    using Cons.prems(4) cf(1) by (auto simp: less_Suc_eq split: option.splits)
  ultimately show ?case using Cons.IH [of "Suc k" ?cull'] cf(2) Cons.prems(5) by blast
qed

lemma find_cull_oldest:
  assumes "fs \<noteq> []"
  shows "\<exists>j. find_cull fs 0 None = Some (j, fs ! j) \<and> j < length fs \<and>
           (\<forall>m<length fs. used_at (fs ! j) \<le> used_at (fs ! m))"
  using find_cull_inv [of fs 0 None "find_cull fs 0 None" fs] assms by simp

lemma acquire_cases:
  "(\<exists>k. fileset_lookup fs tid i = Some k \<and> \<not> (writable \<and> \<not> is_writable (fs ! k)) \<and>
        k < length fs \<and> cached_file_is_open (fs ! k) \<and>
        acquire_slot fs tid i writable s = Inr (Some k, fs, s)) \<or>
   (\<exists>k. fileset_lookup fs tid i = Some k \<and> writable \<and> \<not> is_writable (fs ! k) \<and>
        k < length fs \<and> cached_file_is_open (fs ! k) \<and>
        acquire_slot fs tid i writable s =
          Inr (Some k, fs[k := (fs ! k)\<lparr>fd := TR_BAD_SYS_FILE\<rparr>], tr_sys_file_close (fd (fs ! k)) s)) \<or>
   (\<exists>k. fileset_lookup fs tid i = None \<and> find_unused_slot fs = Some k \<and>
        k < length fs \<and> \<not> cached_file_is_open (fs ! k) \<and>
        acquire_slot fs tid i writable s = Inr (Some k, fs, s)) \<or>
   (\<exists>k. fileset_lookup fs tid i = None \<and> find_unused_slot fs = None \<and> fs \<noteq> [] \<and>
        k < length fs \<and> cached_file_is_open (fs ! k) \<and>
        (\<forall>m<length fs. used_at (fs ! k) \<le> used_at (fs ! m)) \<and>
        acquire_slot fs tid i writable s =
          Inr (Some k, fs[k := (fs ! k)\<lparr>fd := TR_BAD_SYS_FILE\<rparr>], tr_sys_file_close (fd (fs ! k)) s)) \<or>
   (fs = [] \<and> acquire_slot fs tid i writable s = Inr (None, fs, s))"
proof (cases "fileset_lookup fs tid i")
  case (Some k)
  note l = lookup_Some [OF Some]
  then have o: "cached_file_is_open (fs ! k)" by (simp add: slot_matches_def)
  show ?thesis
  proof (cases "writable \<and> \<not> is_writable (fs ! k)")
    case True
    then have "acquire_slot fs tid i writable s =
          Inr (Some k, fs[k := (fs ! k)\<lparr>fd := TR_BAD_SYS_FILE\<rparr>], tr_sys_file_close (fd (fs ! k)) s)"
      using Some o by (simp add: acquire_slot_def cached_file_close_def)
    then show ?thesis using Some True l o by blast
  next
    case False
    then have "acquire_slot fs tid i writable s = Inr (Some k, fs, s)"
      using Some by (auto simp: acquire_slot_def)
    then show ?thesis using Some False l o by blast
  qed
next
  case None
  show ?thesis
  proof (cases "fs = []")
    case True
    then show ?thesis using None by (simp add: acquire_slot_def fileset_get_empty_slot_def)
  next
    case ne: False
    show ?thesis
    proof (cases "find_unused_slot fs")
      case (Some k)
      have "acquire_slot fs tid i writable s = Inr (Some k, fs, s)"
        using None Some ne by (simp add: acquire_slot_def fileset_get_empty_slot_def)
      then show ?thesis using None Some unused_Some [OF Some] by blast
    next
      case un: None
      obtain k where k: "find_cull fs 0 None = Some (k, fs ! k)" "k < length fs"
        "\<forall>m<length fs. used_at (fs ! k) \<le> used_at (fs ! m)"
        using find_cull_oldest [OF ne] by blast
      have o: "cached_file_is_open (fs ! k)" using un k(2) by (simp add: unused_None)
      have "acquire_slot fs tid i writable s =
          Inr (Some k, fs[k := (fs ! k)\<lparr>fd := TR_BAD_SYS_FILE\<rparr>], tr_sys_file_close (fd (fs ! k)) s)"
        using None un ne k(1) o
        by (simp add: acquire_slot_def fileset_get_empty_slot_def cached_file_close_def)
      then show ?thesis using None un ne k o by blast
    qed
  qed
qed

lemma checkout_acquire:
  assumes "fdInfo session = Some info"
  shows "tr_fdFileCheckout session tid i filename writable allocation file_size s =
     (case acquire_slot (fileset info) tid i writable s of
        Inl a \<Rightarrow> Inl a
      | Inr (None, fs, s1) \<Rightarrow> Inl Assertion_failed
      | Inr (Some k, fs, s1) \<Rightarrow>
          (case (if \<not> cached_file_is_open (fs ! k)
                 then (case cached_file_open (fs ! k) filename writable allocation file_size s1 of
                         Inl a \<Rightarrow> Inl a
                       | Inr (err, cf, s') \<Rightarrow>
                           Inr (err,
                                fs[k := (if err \<noteq> 0 then cf else cf\<lparr>is_writable := writable\<rparr>)],
                                s'))
                 else Inr (0, fs, s1)) of
             Inl a \<Rightarrow> Inl a
           | Inr (err, fs, s2) \<Rightarrow>
               if err \<noteq> 0
               then Inr (TR_BAD_SYS_FILE, put_fileset session fs, s2\<lparr>errno := err\<rparr>)
               else
                 (let cf = (fs ! k)\<lparr>torrent_id := tid, file_index := i, used_at := tr_time s2\<rparr>
                  in Inr (fd cf, put_fileset session (fs[k := cf]), s2))))"
  using assms
  by (simp add: tr_fdFileCheckout_def get_fileset_def ensureSessionFdInfoExists_def acquire_slot_def)

lemma checkout_hit:
  assumes "fdInfo session = Some info" "fileset_lookup (fileset info) tid i = Some k"
    "\<not> (writable \<and> \<not> is_writable (fileset info ! k))"
  shows "tr_fdFileCheckout session tid i filename writable allocation file_size s =
     Inr (fd (fileset info ! k),
          put_fileset session ((fileset info)[k := (fileset info ! k)
             \<lparr>torrent_id := tid, file_index := i, used_at := clock s\<rparr>]), s)"
proof -
  note l = lookup_Some [OF assms(2)]
  have a: "acquire_slot (fileset info) tid i writable s = Inr (Some k, fileset info, s)"
    using assms(2,3) by (auto simp: acquire_slot_def)
  have o: "cached_file_is_open (fileset info ! k)" "k < length (fileset info)"
    "torrent_id (fileset info ! k) = tid" "file_index (fileset info ! k) = i"
    using l by (simp_all add: slot_matches_def)
  show ?thesis
    unfolding checkout_acquire [OF assms(1)] a using o(1,2) by (simp add: tr_time_def)
qed

text \<open>A checkout that has to open the file: slot \<open>k\<close> of \<open>fs\<close> is closed.\<close>

lemma checkout_open:
  assumes "fdInfo session = Some info"
    "acquire_slot (fileset info) tid i writable s = Inr (Some k, fs, s1)"
    "\<not> cached_file_is_open (fs ! k)" "k < length fs"
  shows "tr_fdFileCheckout session tid i filename writable allocation file_size s =
     (case cached_file_open (fs ! k) filename writable allocation file_size s1 of
        Inl a \<Rightarrow> Inl a
      | Inr (err, cf, s2) \<Rightarrow>
          if err \<noteq> 0
          then Inr (TR_BAD_SYS_FILE, put_fileset session (fs[k := cf]), s2\<lparr>errno := err\<rparr>)
          else Inr (fd cf,
                    put_fileset session (fs[k := cf\<lparr>is_writable := writable, torrent_id := tid,
                       file_index := i, used_at := clock s2\<rparr>]), s2))"
  using assms(3,4)
  by (simp add: checkout_acquire [OF assms(1)] assms(2) tr_time_def split: sum.splits)

lemma open_flags_write [simp]: "TR_SYS_FILE_WRITE \<in> open_flags w \<longleftrightarrow> w"
  by (simp add: open_flags_def)

lemma issued_append: "calls s' = calls s @ xs \<Longrightarrow> issued s s' = xs"
  by (simp add: issued_def)

lemma cached_file_open_existing:
  assumes "files s f = Some sz" "cached_file_open cf f w alloc n s = r"
  obtains (mkdir_failed) err s' where "r = Inr (err, cf, s')" "err \<noteq> 0" "w"
      "calls s' = calls s @ mkdir_calls w f" "fds s' = fds s" "files s' = files s"
  | (open_failed) err s' where "r = Inr (err, cf\<lparr>fd := TR_BAD_SYS_FILE\<rparr>, s')"
      "calls s' = calls s @ mkdir_calls w f @ [OpenFile f (open_flags (w \<or> n < sz))]"
      "fds s' = fds s" "files s' = files s" "codes_nonzero s \<longrightarrow> err \<noteq> 0"
  | (truncate_failed) err s' where "n < sz" "r = Inr (err, cf\<lparr>fd := int (next_fd s)\<rparr>, s')"
      "calls s' = calls s @ mkdir_calls w f @ [OpenFile f (open_flags True), Truncate (int (next_fd s)) n]"
      "fds s' = (fds s)(int (next_fd s) \<mapsto> \<lparr>path = f, wr = True, pos = 0\<rparr>)"
      "files s' = files s" "codes_nonzero s \<longrightarrow> err \<noteq> 0"
  | (opened) s' where "r = Inr (0, cf\<lparr>fd := int (next_fd s)\<rparr>, s')"
      "calls s' = calls s @ mkdir_calls w f @ [OpenFile f (open_flags (w \<or> n < sz))] @
                     (if n < sz then [Truncate (int (next_fd s)) n] else [])"
      "fds s' = (fds s)(int (next_fd s) \<mapsto> \<lparr>path = f, wr = (w \<or> n < sz), pos = 0\<rparr>)"
      "files s' = (if n < sz then (files s)(f \<mapsto> n) else files s)"
  using assms
  by (auto simp: cached_file_open_def tr_mkdirp_def tr_sys_path_get_info_def tr_sys_file_open_def
      tr_sys_file_truncate_def take_fault_def log_call_def Let_def TR_BAD_SYS_FILE_def issued_def
      open_flags_def codes_nonzero_def mkdir_calls_def
      split: list.splits option.splits if_splits)

lemma cached_file_open_slot:
  "cached_file_open cf f w alloc n s = Inr (err, cf', s') \<Longrightarrow> cf' = cf\<lparr>fd := fd cf'\<rparr>"
  by (auto simp: cached_file_open_def Let_def split: prod.splits if_splits sum.splits bool.splits)

lemma session_fileset_put [simp]:
  "fdInfo session = Some info \<Longrightarrow> session_fileset (put_fileset session fs) = fs"
  by (simp add: session_fileset_def put_fileset_def)

lemma fdInfo_put [simp]:
  "fdInfo session = Some info \<Longrightarrow> fdInfo (put_fileset session fs) = Some (info\<lparr>fileset := fs\<rparr>)"
  by (simp add: put_fileset_def)

lemma close_fields [simp]:
  "files (tr_sys_file_close h s) = files s"
  "faults (tr_sys_file_close h s) = faults s"
  "calls (tr_sys_file_close h s) = calls s @ [CloseFile h]"
  "fds (tr_sys_file_close h s) = (fds s)(h := None)"
  "next_fd (tr_sys_file_close h s) = next_fd s"
  "clock (tr_sys_file_close h s) = clock s"
  "socks (tr_sys_file_close h s) = socks s"
  by (simp_all add: tr_sys_file_close_def log_call_def)

lemma codes_nonzero_close [simp]: "codes_nonzero (tr_sys_file_close h s) = codes_nonzero s"
  by (simp add: codes_nonzero_def)

text \<open>
  What a checkout that does not find the file in the cache does before it opens: the slot it
  will open into is closed, and at most one descriptor has been closed.
\<close>

lemma acquire_for_open:
  assumes "\<not> cache_serves fs tid i writable"
    "acquire_slot fs tid i writable s = Inr (Some k, fs1, s1)"
  shows "k < length fs1 \<and> length fs1 = length fs \<and> \<not> cached_file_is_open (fs1 ! k) \<and>
         (\<forall>j<k. \<not> slot_matches tid i (fs1 ! j)) \<and>
         (\<forall>j<length fs. j \<noteq> k \<longrightarrow> fs1 ! j = fs ! j) \<and>
         fs1 ! k = (fs ! k)\<lparr>fd := TR_BAD_SYS_FILE\<rparr> \<and>
         files s1 = files s \<and> faults s1 = faults s \<and> next_fd s1 = next_fd s \<and>
         (s1 = s \<and> \<not> cached_file_is_open (fs ! k) \<or>
          s1 = tr_sys_file_close (fd (fs ! k)) s \<and> cached_file_is_open (fs ! k))"
  using acquire_cases [of fs tid i writable s] assms
  apply (elim disjE exE conjE)
      apply (simp_all add: cache_serves_def)
    apply (auto dest!: lookup_Some unused_Some simp: lookup_None slot_matches_def cached_file_is_open_def nth_list_update)
  done

lemma checkout_no_slots:
  assumes "fdInfo session = Some info" "fileset info = []"
  shows "tr_fdFileCheckout session tid i f w alloc n s = Inl Assertion_failed"
  using assms
  by (simp add: checkout_acquire [OF assms(1)] acquire_slot_def fileset_get_empty_slot_def)

lemma acquire_total:
  assumes "\<not> cache_serves fs tid i w" "fs \<noteq> []"
  shows "\<exists>k fs1 s1. acquire_slot fs tid i w s = Inr (Some k, fs1, s1)"
  using acquire_cases [of fs tid i w s] assms by (auto simp: cache_serves_def)

text \<open>A checkout that is not served from the cache, of a file that exists.\<close>

lemma checkout_opening_existing:
  assumes "fdInfo session = Some info" "\<not> cache_serves (fileset info) tid i w"
    "files s f = Some sz"
    "tr_fdFileCheckout session tid i f w alloc n s = Inr (h, session', s')"
  shows "\<exists>k pre. k < length (fileset info) \<and>
     (\<forall>j<k. \<not> slot_matches tid i (fileset info ! j)) \<and>
     (fileset_lookup (fileset info) tid i = None \<or> fileset_lookup (fileset info) tid i = Some k) \<and>
     pre = (if cached_file_is_open (fileset info ! k) then [CloseFile (fd (fileset info ! k))] else []) \<and>
     length (session_fileset session') = length (fileset info) \<and>
     (\<forall>j<length (fileset info). j \<noteq> k \<longrightarrow> session_fileset session' ! j = fileset info ! j) \<and>
     (h = TR_BAD_SYS_FILE \<and>
        (\<exists>post. calls s' = calls s @ pre @ post \<and>
           set post \<subseteq> {MkdirP (tr_sys_path_dirname f), OpenFile f (open_flags (w \<or> n < sz)),
                         Truncate (int (next_fd s)) n})
      \<or>
      h \<noteq> TR_BAD_SYS_FILE \<and>
        calls s' = calls s @ pre @ mkdir_calls w f @ [OpenFile f (open_flags (w \<or> n < sz))] @
                     (if n < sz then [Truncate h n] else []) \<and>
        fds s' h = Some \<lparr>path = f, wr = (w \<or> n < sz), pos = 0\<rparr> \<and>
        fd (session_fileset session' ! k) = h \<and>
        is_writable (session_fileset session' ! k) = w \<and>
        torrent_id (session_fileset session' ! k) = tid \<and>
        file_index (session_fileset session' ! k) = i \<and>
        files s' f \<noteq> None \<and>
        (codes_nonzero s \<longrightarrow> files s' = (if n < sz then (files s)(f \<mapsto> n) else files s)))"
proof -
  have ne: "fileset info \<noteq> []"
    using checkout_no_slots [OF assms(1)] assms(4) by auto
  obtain k fs1 s1 where acq: "acquire_slot (fileset info) tid i w s = Inr (Some k, fs1, s1)"
    using acquire_total [OF assms(2) ne] by blast
  note a = acquire_for_open [OF assms(2) acq]
  define pre where "pre = (if cached_file_is_open (fileset info ! k)
                           then [CloseFile (fd (fileset info ! k))] else [])"
  have c1: "calls s1 = calls s @ pre" "files s1 f = Some sz" "next_fd s1 = next_fd s"
    "codes_nonzero s1 = codes_nonzero s" "files s1 = files s"
    using a assms(3) by (auto simp: pre_def codes_nonzero_def)
  have lk: "fileset_lookup (fileset info) tid i = None \<or> fileset_lookup (fileset info) tid i = Some k"
    using acquire_cases [of "fileset info" tid i w s] acq by auto
  have kl: "k < length fs1" "\<not> cached_file_is_open (fs1 ! k)" "k < length (fileset info)"
    using a by (auto simp: cached_file_is_open_def)
  have nm: "\<forall>j<k. \<not> slot_matches tid i (fileset info ! j)"
    using a by auto
  note co = checkout_open [OF assms(1) acq kl(2) kl(1), of f alloc n]
  have bad: "fd (fs1 ! k) = TR_BAD_SYS_FILE" using kl(2) by (simp add: cached_file_is_open_def)
  have frame: "length fs' = length fs1 \<Longrightarrow> \<forall>j<length fs1. j \<noteq> k \<longrightarrow> fs' ! j = fs1 ! j \<Longrightarrow>
     length fs' = length (fileset info) \<and> (\<forall>j<length (fileset info). j \<noteq> k \<longrightarrow> fs' ! j = fileset info ! j)"
    for fs' using a by auto
  have rr: "cached_file_open (fs1 ! k) f w alloc n s1 = cached_file_open (fs1 ! k) f w alloc n s1"
    by (rule refl)
  from c1(2) rr show ?thesis
  proof (cases rule: cached_file_open_existing)
    case (mkdir_failed err s2)
    have r: "h = TR_BAD_SYS_FILE" "session' = put_fileset session (fs1[k := fs1 ! k])"
      "s' = s2\<lparr>errno := err\<rparr>"
      using assms(4) mkdir_failed(1,2) by (auto simp: co)
    have "calls s' = calls s @ pre @ mkdir_calls w f" using r mkdir_failed c1 by simp
    moreover have "set (mkdir_calls w f) \<subseteq> {MkdirP (tr_sys_path_dirname f),
        OpenFile f (open_flags (w \<or> n < sz)), Truncate (int (next_fd s)) n}"
      by (auto simp: mkdir_calls_def)
    ultimately show ?thesis
      using r assms(1) kl nm lk frame [of "fs1[k := fs1 ! k]"] pre_def by (auto simp: nth_list_update)
  next
    case (open_failed err s2)
    have r: "h = TR_BAD_SYS_FILE"
      "session' = put_fileset session (fs1[k := (fs1 ! k)\<lparr>fd := TR_BAD_SYS_FILE, is_writable := w,
          torrent_id := tid, file_index := i, used_at := clock s2\<rparr>]) \<or>
       session' = put_fileset session (fs1[k := (fs1 ! k)\<lparr>fd := TR_BAD_SYS_FILE\<rparr>])"
      "calls s' = calls s2"
      using assms(4) open_failed(1) by (auto simp: co split: if_splits)
    have "calls s' = calls s @ pre @ (mkdir_calls w f @ [OpenFile f (open_flags (w \<or> n < sz))])"
      using r open_failed c1 by simp
    moreover have "set (mkdir_calls w f @ [OpenFile f (open_flags (w \<or> n < sz))]) \<subseteq>
       {MkdirP (tr_sys_path_dirname f),
        OpenFile f (open_flags (w \<or> n < sz)), Truncate (int (next_fd s)) n}"
      by (auto simp: mkdir_calls_def)
    ultimately show ?thesis
      using r(1,2) assms(1) kl nm lk pre_def
        frame [of "fs1[k := (fs1 ! k)\<lparr>fd := TR_BAD_SYS_FILE, is_writable := w,
          torrent_id := tid, file_index := i, used_at := clock s2\<rparr>]"]
        frame [of "fs1[k := (fs1 ! k)\<lparr>fd := TR_BAD_SYS_FILE\<rparr>]"]
      by (elim disjE) (simp_all add: nth_list_update, blast+)
  next
    case (truncate_failed err s2)
    let ?h = "int (next_fd s)"
    have hb: "?h \<noteq> TR_BAD_SYS_FILE" by (simp add: TR_BAD_SYS_FILE_def)
    show ?thesis
    proof (cases "err = 0")
      case False
      have r: "h = TR_BAD_SYS_FILE"
        "session' = put_fileset session (fs1[k := (fs1 ! k)\<lparr>fd := int (next_fd s1)\<rparr>])"
        "calls s' = calls s2"
        using assms(4) truncate_failed(2) False by (auto simp: co)
      have "calls s' = calls s @ pre @ (mkdir_calls w f @ [OpenFile f (open_flags True), Truncate ?h n])"
        using r truncate_failed c1 by simp
      moreover have "set (mkdir_calls w f @ [OpenFile f (open_flags True), Truncate ?h n]) \<subseteq>
         {MkdirP (tr_sys_path_dirname f),
          OpenFile f (open_flags (w \<or> n < sz)), Truncate (int (next_fd s)) n}"
        using truncate_failed(1) by (auto simp: mkdir_calls_def)
      ultimately show ?thesis
        using r(1,2) assms(1) kl nm lk pre_def
          frame [of "fs1[k := (fs1 ! k)\<lparr>fd := int (next_fd s1)\<rparr>]"]
        by (simp add: nth_list_update) blast
    next
      case True
      have r: "h = ?h"
        "session' = put_fileset session (fs1[k := (fs1 ! k)\<lparr>fd := ?h, is_writable := w,
            torrent_id := tid, file_index := i, used_at := clock s2\<rparr>])"
        "s' = s2"
        using assms(4) truncate_failed(2) True c1(3) by (auto simp: co)
      have nc: "\<not> codes_nonzero s" using truncate_failed(6) True c1(4) by simp
      have "calls s' = calls s @ pre @ mkdir_calls w f @ [OpenFile f (open_flags (w \<or> n < sz))] @
                     (if n < sz then [Truncate h n] else [])"
        using r truncate_failed c1 by simp
      moreover have "fds s' h = Some \<lparr>path = f, wr = (w \<or> n < sz), pos = 0\<rparr>"
        using r truncate_failed c1 by simp
      moreover have "files s' f \<noteq> None" using r truncate_failed c1 by simp
      ultimately show ?thesis
        using r(1,2) hb nc assms(1) kl nm lk pre_def
          frame [of "fs1[k := (fs1 ! k)\<lparr>fd := ?h, is_writable := w,
            torrent_id := tid, file_index := i, used_at := clock s2\<rparr>]"]
        by (simp add: nth_list_update) blast
    qed
  next
    case (opened s2)
    let ?h = "int (next_fd s)"
    have hb: "?h \<noteq> TR_BAD_SYS_FILE" by (simp add: TR_BAD_SYS_FILE_def)
    have r: "h = ?h"
      "session' = put_fileset session (fs1[k := (fs1 ! k)\<lparr>fd := ?h, is_writable := w,
          torrent_id := tid, file_index := i, used_at := clock s2\<rparr>])"
      "s' = s2"
      using assms(4) opened(1) c1(3) by (auto simp: co)
    have "calls s' = calls s @ pre @ mkdir_calls w f @ [OpenFile f (open_flags (w \<or> n < sz))] @
                   (if n < sz then [Truncate h n] else [])"
      using r opened c1 by simp
    moreover have "fds s' h = Some \<lparr>path = f, wr = (w \<or> n < sz), pos = 0\<rparr>"
      using r opened c1 by simp
    moreover have "files s' f \<noteq> None" using r opened c1 by simp
    moreover have "files s' = (if n < sz then (files s)(f \<mapsto> n) else files s)"
      using r opened c1 by simp
    ultimately show ?thesis
      using r(1,2) hb assms(1) kl nm lk pre_def
        frame [of "fs1[k := (fs1 ! k)\<lparr>fd := ?h, is_writable := w,
          torrent_id := tid, file_index := i, used_at := clock s2\<rparr>]"]
      by (simp add: nth_list_update) blast
  qed
qed

text \<open>The slot a successful checkout leaves behind.\<close>

lemma checkout_success_state:
  assumes "fdInfo session = Some info"
    "tr_fdFileCheckout session tid i f w alloc n s = Inr (h, session', s')"
    "h \<noteq> TR_BAD_SYS_FILE"
  shows "\<exists>k info'. fdInfo session' = Some info' \<and> fileset info' = session_fileset session' \<and>
           fileset_lookup (fileset info') tid i = Some k \<and>
           fd (fileset info' ! k) = h \<and> (w \<longrightarrow> is_writable (fileset info' ! k)) \<and>
           (\<not> w \<and> \<not> cached_writable (fileset info) tid i \<longrightarrow> \<not> is_writable (fileset info' ! k)) \<and>
           (cache_serves (fileset info) tid i w \<longrightarrow> s' = s)"
proof (cases "cache_serves (fileset info) tid i w")
  case True
  then obtain k where k: "fileset_lookup (fileset info) tid i = Some k"
    "\<not> (w \<and> \<not> is_writable (fileset info ! k))"
    by (auto simp: cache_serves_def split: option.splits)
  note l = lookup_Some [OF k(1)]
  let ?fs = "(fileset info)[k := (fileset info ! k)\<lparr>torrent_id := tid, file_index := i, used_at := clock s\<rparr>]"
  have r: "h = fd (fileset info ! k)" "session' = put_fileset session ?fs" "s' = s"
    using checkout_hit [OF assms(1) k, of f alloc n s] assms(2) by auto
  have "fileset_lookup ?fs tid i = Some k"
    using l by (intro lookup_first) (auto simp: slot_matches_def cached_file_is_open_def)
  then show ?thesis
    using r assms(1) k l True by (auto simp: cached_writable_def)
next
  case False
  have ne: "fileset info \<noteq> []"
    using checkout_no_slots [OF assms(1)] assms(2) by auto
  obtain k fs1 s1 where acq: "acquire_slot (fileset info) tid i w s = Inr (Some k, fs1, s1)"
    using acquire_total [OF False ne] by blast
  note a = acquire_for_open [OF False acq]
  have kl: "k < length fs1" "\<not> cached_file_is_open (fs1 ! k)"
    using a by (auto simp: cached_file_is_open_def)
  note co = checkout_open [OF assms(1) acq kl(2) kl(1), of f alloc n]
  obtain err cf s2 where o: "cached_file_open (fs1 ! k) f w alloc n s1 = Inr (err, cf, s2)"
    using assms(2) by (auto simp: co split: sum.splits)
  have e: "err = 0" using assms(2,3) o by (auto simp: co split: if_splits)
  let ?cf = "cf\<lparr>is_writable := w, torrent_id := tid, file_index := i, used_at := clock s2\<rparr>"
  have r: "h = fd cf" "session' = put_fileset session (fs1[k := ?cf])"
    using assms(2) o e by (auto simp: co)
  have m: "slot_matches tid i ?cf" using r(1) assms(3) by (simp add: slot_matches_def cached_file_is_open_def)
  have "fileset_lookup (fs1[k := ?cf]) tid i = Some k"
    using kl(1) m a by (intro lookup_first) auto
  then show ?thesis
    using r assms(1) kl(1) False by simp
qed

lemma checkout_keeps_file:
  assumes "fdInfo session = Some info" "files s f = Some sz"
    "tr_fdFileCheckout session tid i f w alloc n s = Inr (h, session', s')"
    "h \<noteq> TR_BAD_SYS_FILE"
  shows "files s' f \<noteq> None"
proof (cases "cache_serves (fileset info) tid i w")
  case True
  then show ?thesis using checkout_success_state [OF assms(1,3,4)] assms(2) by auto
next
  case False
  show ?thesis
    using checkout_opening_existing [OF assms(1) False assms(2,3)] assms(4) by auto
qed

text \<open>A writable checkout of an identity whose cached slot is recorded read-only.\<close>

lemma checkout_reopens:
  assumes "fdInfo session = Some info" "fileset_lookup (fileset info) tid i = Some k"
    "\<not> is_writable (fileset info ! k)" "files s f = Some sz"
    "tr_fdFileCheckout session tid i f True alloc n s = Inr (h, session', s')"
  shows "(\<exists>post. issued s s' = CloseFile (fd (fileset info ! k)) # post \<and>
            (\<forall>d. CloseFile d \<notin> set post) \<and>
            (h \<noteq> TR_BAD_SYS_FILE \<longrightarrow>
               post = MkdirP (tr_sys_path_dirname f) # OpenFile f (open_flags True) #
                        (if n < sz then [Truncate h n] else []))) \<and>
         (h \<noteq> TR_BAD_SYS_FILE \<longrightarrow> fds s' h = Some \<lparr>path = f, wr = True, pos = 0\<rparr> \<and>
            fd (session_fileset session' ! k) = h \<and> is_writable (session_fileset session' ! k))"
proof -
  have nc: "\<not> cache_serves (fileset info) tid i True"
    using assms(2,3) by (simp add: cache_serves_def)
  have o: "cached_file_is_open (fileset info ! k)"
    using lookup_Some [OF assms(2)] by (simp add: slot_matches_def)
  from checkout_opening_existing [OF assms(1) nc assms(4,5)] assms(2) o
  obtain pre where p: "pre = [CloseFile (fd (fileset info ! k))]"
    "h = TR_BAD_SYS_FILE \<and>
        (\<exists>post. calls s' = calls s @ pre @ post \<and>
           set post \<subseteq> {MkdirP (tr_sys_path_dirname f), OpenFile f (open_flags (True \<or> n < sz)),
                         Truncate (int (next_fd s)) n})
      \<or>
      h \<noteq> TR_BAD_SYS_FILE \<and>
        calls s' = calls s @ pre @ mkdir_calls True f @ [OpenFile f (open_flags (True \<or> n < sz))] @
                     (if n < sz then [Truncate h n] else []) \<and>
        fds s' h = Some \<lparr>path = f, wr = (True \<or> n < sz), pos = 0\<rparr> \<and>
        fd (session_fileset session' ! k) = h \<and>
        is_writable (session_fileset session' ! k) = True"
    by auto
  from p(2) show ?thesis
  proof (elim disjE conjE exE)
    fix post
    assume "h = TR_BAD_SYS_FILE" "calls s' = calls s @ pre @ post"
      "set post \<subseteq> {MkdirP (tr_sys_path_dirname f), OpenFile f (open_flags (True \<or> n < sz)),
                         Truncate (int (next_fd s)) n}"
    then show ?thesis using p(1) by (auto simp: issued_def)
  next
    assume "h \<noteq> TR_BAD_SYS_FILE"
      "calls s' = calls s @ pre @ mkdir_calls True f @ [OpenFile f (open_flags (True \<or> n < sz))] @
                     (if n < sz then [Truncate h n] else [])"
      "fds s' h = Some \<lparr>path = f, wr = (True \<or> n < sz), pos = 0\<rparr>"
      "fd (session_fileset session' ! k) = h"
      "is_writable (session_fileset session' ! k) = True"
    then show ?thesis using p(1) by (auto simp: issued_def mkdir_calls_def)
  qed
qed

section \<open>The example checkouts\<close>

lemma result_collapse:
  "\<not> isl r \<Longrightarrow> r = Inr (fst (projr r), fst (snd (projr r)), snd (snd (projr r)))"
  by (cases r) auto

lemma result_collapse_fst:
  "\<not> isl r \<Longrightarrow> fst (projr r) = h \<Longrightarrow> r = Inr (h, fst (snd (projr r)), snd (snd (projr r)))"
  by (cases r) auto

lemma resized_examples:
  "\<not> isl resized_first" "fst (projr resized_first) = 3"
  "\<not> isl resized_second" "fst (projr resized_second) = 4"
  by (code_simp+)

lemma example_checkout:
  "tr_fdFileCheckout (example_session 0 2) 4 0 ''/t/d'' False TR_PREALLOCATE_NONE 1024 example_os =
     Inr (3, fst (snd (projr resized_first)), snd (snd (projr resized_first)))"
  unfolding resized_first_def [symmetric]
  by (rule result_collapse_fst [OF resized_examples(1,2)])

lemma example_recheckout:
  "tr_fdFileCheckout (fst (snd (projr resized_first))) 4 0 ''/t/d'' True TR_PREALLOCATE_NONE 1024
       (snd (snd (projr resized_first))) =
     Inr (4, fst (snd (projr resized_second)), snd (snd (projr resized_second)))"
  unfolding resized_second_def [symmetric]
  by (rule result_collapse_fst [OF resized_examples(3,4)])

lemma upgrade_examples:
  "\<not> isl read_only_first" "fst (projr read_only_first) = 3"
  "\<not> isl writable_second" "fst (projr writable_second) = 4"
  "\<not> isl writable_first" "fst (projr writable_first) = 3"
  by (code_simp+)

lemma cached_examples:
  "\<not> isl cached_first" "\<not> isl cached_second"
  "fdInfo (fst (snd (projr cached_first))) \<noteq> None"
  "cache_serves (session_fileset (fst (snd (projr cached_first)))) 4 0 False"
  "files (snd (snd (projr cached_first))) ''/t/d'' = Some 2048"
  "codes_nonzero (snd (snd (projr cached_first)))"
  by (code_simp+)


section \<open>What the system calls of a checkout leave open\<close>

lemma os_step_refl [simp]: "os_step s s"
  by (simp add: os_step_def)

lemma os_step_trans:
  assumes "os_step s s1" "os_step s1 s2"
  shows "os_step s s2"
proof -
  from assms obtain xs ys where "calls s1 = calls s @ xs" "calls s2 = calls s1 @ ys"
    by (auto simp: os_step_def)
  then have "calls s2 = calls s @ (xs @ ys)" by simp
  moreover have "dom (fds s2) \<subseteq> dom (fds s)"
    using assms by (meson os_step_def subset_trans)
  ultimately show ?thesis unfolding os_step_def by blast
qed

lemma os_step_clock [simp]: "os_step s (s1\<lparr>clock := t\<rparr>) = os_step s s1"
  "os_step (s\<lparr>clock := t\<rparr>) s1 = os_step s s1"
  by (simp_all add: os_step_def)

lemma step_mkdirp: "os_step s (snd (tr_mkdirp d s))"
  by (auto simp: os_step_def tr_mkdirp_def take_fault_def log_call_def split: list.splits option.splits)

lemma step_truncate: "os_step s (snd (snd (tr_sys_file_truncate h n s)))"
  by (auto simp: os_step_def tr_sys_file_truncate_def take_fault_def log_call_def
      split: list.splits option.splits)

lemma step_preallocate: "os_step s (snd (tr_sys_file_preallocate h n b s))"
  by (auto simp: os_step_def tr_sys_file_preallocate_def take_fault_def log_call_def
      split: list.splits option.splits)

lemma step_seek: "os_step s (snd (tr_sys_file_seek h n s))"
  by (auto simp: os_step_def tr_sys_file_seek_def take_fault_def log_call_def
      split: list.splits option.splits if_splits)

lemma step_write: "os_step s (snd (snd (tr_sys_file_write h n s)))"
  by (auto simp: os_step_def tr_sys_file_write_def take_fault_def log_call_def
      split: list.splits option.splits if_splits)

lemma step_close: "os_step s (tr_sys_file_close h s)"
  by (auto simp: os_step_def)

lemma step_open:
  assumes "tr_sys_file_open p fl s = (h, e, s')"
  shows "(\<exists>xs. calls s' = calls s @ xs) \<and>
         (h = TR_BAD_SYS_FILE \<and> dom (fds s') \<subseteq> dom (fds s) \<or>
          h \<noteq> TR_BAD_SYS_FILE \<and> dom (fds s') \<subseteq> insert h (dom (fds s)))"
  using assms
  by (auto simp: tr_sys_file_open_def take_fault_def log_call_def TR_BAD_SYS_FILE_def
      split: list.splits option.splits if_splits)

lemma step_full_loop: "os_step s (snd (preallocate_file_full_loop h n b s))"
proof (induction h n b s rule: preallocate_file_full_loop.induct)
  case (1 h len success s)
  note unf = preallocate_file_full_loop.simps [of h len success s]
  show ?case
  proof (cases "success \<and> len > 0")
    case False
    have "preallocate_file_full_loop h len success s = (success, s)"
      by (rule trans [OF unf]) (use False in \<open>rule if_not_P\<close>)
    then show ?thesis by simp
  next
    case True
    obtain ok bw s1 where w: "tr_sys_file_write h (min len 4096) s = (ok, bw, s1)"
      by (cases "tr_sys_file_write h (min len 4096) s") auto
    have "(if success \<and> len > 0 then
        (case tr_sys_file_write h (min len 4096) s of
           (ok, bytes_written, s1) \<Rightarrow>
             preallocate_file_full_loop h (len - min len 4096)
               (ok \<and> bytes_written = min len 4096) s1)
      else (success, s)) =
        (case tr_sys_file_write h (min len 4096) s of
           (ok, bytes_written, s1) \<Rightarrow>
             preallocate_file_full_loop h (len - min len 4096)
               (ok \<and> bytes_written = min len 4096) s1)"
      using True by (rule if_P)
    also have "\<dots> = preallocate_file_full_loop h (len - min len 4096) (ok \<and> bw = min len 4096) s1"
      by (simp only: w prod.case)
    finally have eq: "preallocate_file_full_loop h len success s =
        preallocate_file_full_loop h (len - min len 4096) (ok \<and> bw = min len 4096) s1"
      by (rule trans [OF unf])
    have "os_step s s1" using step_write [of s h "min len 4096"] w by simp
    moreover have "os_step s1 (snd (preallocate_file_full_loop h (len - min len 4096)
                      (ok \<and> bw = min len 4096) s1))"
      using "1.IH" [OF True w [symmetric] refl] .
    ultimately have "os_step s (snd (preallocate_file_full_loop h (len - min len 4096)
                      (ok \<and> bw = min len 4096) s1))"
      by (rule os_step_trans)
    then show ?thesis by (simp only: eq)
  qed
qed

lemma full_unfold:
  assumes "tr_sys_file_open f {TR_SYS_FILE_WRITE, TR_SYS_FILE_CREATE} s = (h, e, s1)"
  shows "preallocate_file_full f n s =
     (if h \<noteq> TR_BAD_SYS_FILE then
        (case tr_sys_file_preallocate h n False s1 of
           (success, s2) \<Rightarrow>
             (case (if \<not> success then preallocate_file_full_loop h n True s2
                    else (success, s2)) of
                (success, s3) \<Rightarrow> (success, tr_sys_file_close h s3)))
      else (False, s1))"
  unfolding preallocate_file_full_def assms by simp

lemma full_snd:
  assumes o: "tr_sys_file_open f {TR_SYS_FILE_WRITE, TR_SYS_FILE_CREATE} s = (h, e, s1)"
   and "h \<noteq> TR_BAD_SYS_FILE" and p: "tr_sys_file_preallocate h n False s1 = (b, s2)"
  shows "snd (preallocate_file_full f n s) =
     tr_sys_file_close h (if \<not> b then snd (preallocate_file_full_loop h n True s2) else s2)"
proof (cases b)
  case True
  then show ?thesis unfolding full_unfold [OF o] p using assms(2) by simp
next
  case False
  then show ?thesis unfolding full_unfold [OF o] p using assms(2)
    by (cases "preallocate_file_full_loop h n True s2") simp
qed

lemma removed_subset:
  "A = B - {h} \<Longrightarrow> C \<subseteq> insert h D \<Longrightarrow> B \<subseteq> C \<Longrightarrow> A \<subseteq> D"
  by blast

lemma dom_close: "dom (fds (tr_sys_file_close h s)) = dom (fds s) - {h}"
  by simp

lemma step_full: "os_step s (snd (preallocate_file_full f n s))"
proof -
  obtain h e s1 where o: "tr_sys_file_open f {TR_SYS_FILE_WRITE, TR_SYS_FILE_CREATE} s = (h, e, s1)"
    by (cases "tr_sys_file_open f {TR_SYS_FILE_WRITE, TR_SYS_FILE_CREATE} s") auto
  note so = step_open [OF o]
  from so obtain xs where xs: "calls s1 = calls s @ xs" by blast
  show ?thesis
  proof (cases "h = TR_BAD_SYS_FILE")
    case True
    have d: "dom (fds s1) \<subseteq> dom (fds s)" using so True by blast
    have "snd (preallocate_file_full f n s) = s1"
      using True by (simp add: full_unfold [OF o])
    then show ?thesis unfolding os_step_def using xs d by simp
  next
    case False
    have d: "dom (fds s1) \<subseteq> insert h (dom (fds s))" using so False by blast
    obtain b s2 where p: "tr_sys_file_preallocate h n False s1 = (b, s2)"
      by (cases "tr_sys_file_preallocate h n False s1") auto
    define s3 where "s3 = (if \<not> b then snd (preallocate_file_full_loop h n True s2) else s2)"
    have "os_step s1 s2" using step_preallocate [of s1 h n False] p by simp
    moreover have "os_step s2 s3"
    proof (cases b)
      case True
      then show ?thesis by (simp add: s3_def)
    next
      case False
      then show ?thesis using step_full_loop [of s2 h n True] by (simp add: s3_def)
    qed
    ultimately have "os_step s1 s3" by (rule os_step_trans)
    then obtain ys where ys: "calls s3 = calls s1 @ ys" and d3: "dom (fds s3) \<subseteq> dom (fds s1)"
      unfolding os_step_def by blast
    have c: "calls (tr_sys_file_close h s3) = calls s @ (xs @ ys @ [CloseFile h])"
      using xs ys by simp
    have "dom (fds (tr_sys_file_close h s3)) = dom (fds s3) - {h}"
      by (rule dom_close)
    then have dc: "dom (fds (tr_sys_file_close h s3)) \<subseteq> dom (fds s)"
      using d d3 by (rule removed_subset)
    have st: "os_step s (tr_sys_file_close h s3)"
      unfolding os_step_def
    proof (intro conjI exI)
      show "calls (tr_sys_file_close h s3) = calls s @ (xs @ ys @ [CloseFile h])" by (rule c)
      show "dom (fds (tr_sys_file_close h s3)) \<subseteq> dom (fds s)" by (rule dc)
    qed
    have "snd (preallocate_file_full f n s) = tr_sys_file_close h s3"
      unfolding s3_def by (rule full_snd [OF o False p])
    with st show ?thesis by simp
  qed
qed

lemma step_sparse:
  assumes "preallocate_file_sparse h n s = Inr (b, s')"
  shows "os_step s s'"
proof (cases "n = 0")
  case True
  then show ?thesis using assms by (simp add: preallocate_file_sparse_def)
next
  case False
  obtain b1 s1 where p: "tr_sys_file_preallocate h n True s = (b1, s1)"
    by (cases "tr_sys_file_preallocate h n True s") auto
  obtain b2 s2 where sk: "tr_sys_file_seek h (n - 1) s1 = (b2, s2)"
    by (cases "tr_sys_file_seek h (n - 1) s1") auto
  obtain b3 k3 s3 where w: "tr_sys_file_write h 1 s2 = (b3, k3, s3)"
    by (cases "tr_sys_file_write h 1 s2") auto
  obtain b4 e4 s4 where tr: "tr_sys_file_truncate h n s3 = (b4, e4, s4)"
    by (cases "tr_sys_file_truncate h n s3") auto
  have 1: "os_step s s1" using step_preallocate [of s h n True] p by simp
  have "os_step s1 s2" using step_seek [of s1 h "n - 1"] sk by simp
  with 1 have 2: "os_step s s2" by (rule os_step_trans)
  have "os_step s2 s3" using step_write [of s2 h 1] w by simp
  with 2 have 3: "os_step s s3" by (rule os_step_trans)
  have "os_step s3 s4" using step_truncate [of s3 h n] tr by simp
  with 3 have 4: "os_step s s4" by (rule os_step_trans)
  have u: "preallocate_file_sparse h n s =
     (if \<not> b1 then
        (if \<not> n < 0x7FFFFFFFFFFFFFFF then Inl Assertion_failed
         else if \<not> b2 then Inr (False, s2)
         else if \<not> b3 then Inr (False, s3)
         else Inr (b4, s4))
      else Inr (b1, s1))"
    using False
    by (cases b1; cases b2; cases b3)
       (simp_all add: preallocate_file_sparse_def p sk w tr del: One_nat_def)
  have "s' = s1 \<or> s' = s2 \<or> s' = s3 \<or> s' = s4"
    using assms unfolding u by (simp split: if_splits)
  then show ?thesis using 1 2 3 4 by blast
qed

lemma opened_step_pre:
  assumes "os_step s s1" "opened_step s1 h s2"
  shows "opened_step s h s2"
proof -
  from assms obtain xs ys where "calls s1 = calls s @ xs" "calls s2 = calls s1 @ ys"
    by (auto simp: os_step_def opened_step_def)
  then have c: "calls s2 = calls s @ (xs @ ys)" by simp
  have d: "dom (fds s1) \<subseteq> dom (fds s)" using assms(1) by (simp add: os_step_def)
  have "h = TR_BAD_SYS_FILE \<and> dom (fds s2) \<subseteq> dom (fds s) \<or>
       h \<noteq> TR_BAD_SYS_FILE \<and> dom (fds s2) \<subseteq> insert h (dom (fds s))"
  proof (cases "h = TR_BAD_SYS_FILE")
    case True
    then have "dom (fds s2) \<subseteq> dom (fds s1)" using assms(2) by (simp add: opened_step_def)
    with d have "dom (fds s2) \<subseteq> dom (fds s)" by (rule subset_trans [rotated])
    with True show ?thesis by simp
  next
    case False
    then have "dom (fds s2) \<subseteq> insert h (dom (fds s1))" using assms(2) by (simp add: opened_step_def)
    moreover have "insert h (dom (fds s1)) \<subseteq> insert h (dom (fds s))" using d by (rule insert_mono)
    ultimately have "dom (fds s2) \<subseteq> insert h (dom (fds s))" by (rule subset_trans)
    with False show ?thesis by simp
  qed
  with c show ?thesis unfolding opened_step_def by blast
qed

lemma opened_step_post:
  assumes "opened_step s h s1" "os_step s1 s2"
  shows "opened_step s h s2"
proof -
  from assms obtain xs ys where "calls s1 = calls s @ xs" "calls s2 = calls s1 @ ys"
    by (auto simp: os_step_def opened_step_def)
  then have c: "calls s2 = calls s @ (xs @ ys)" by simp
  have d: "dom (fds s2) \<subseteq> dom (fds s1)" using assms(2) by (simp add: os_step_def)
  have "h = TR_BAD_SYS_FILE \<and> dom (fds s2) \<subseteq> dom (fds s) \<or>
       h \<noteq> TR_BAD_SYS_FILE \<and> dom (fds s2) \<subseteq> insert h (dom (fds s))"
  proof (cases "h = TR_BAD_SYS_FILE")
    case True
    then have "dom (fds s1) \<subseteq> dom (fds s)" using assms(1) by (simp add: opened_step_def)
    with d have "dom (fds s2) \<subseteq> dom (fds s)" by (rule subset_trans)
    with True show ?thesis by simp
  next
    case False
    then have "dom (fds s1) \<subseteq> insert h (dom (fds s))" using assms(1) by (simp add: opened_step_def)
    with d have "dom (fds s2) \<subseteq> insert h (dom (fds s))" by (rule subset_trans)
    with False show ?thesis by simp
  qed
  with c show ?thesis unfolding opened_step_def by blast
qed

lemma opened_step_none: "os_step s s' \<Longrightarrow> opened_step s TR_BAD_SYS_FILE s'"
  by (simp add: os_step_def opened_step_def)

lemma opened_step_open:
  "opened_step s (fst (tr_sys_file_open p fl s)) (snd (snd (tr_sys_file_open p fl s)))"
  using step_open [of p fl s "fst (tr_sys_file_open p fl s)" "fst (snd (tr_sys_file_open p fl s))"
      "snd (snd (tr_sys_file_open p fl s))"]
  by (simp add: opened_step_def)

lemma cached_file_open_stages:
  "cached_file_open cf f w alloc n s =
     (case mkdir_stage f w s of
        (err, s1) \<Rightarrow>
          if err \<noteq> 0 then Inr (err, cf, s1)
          else (case prepare_stage f w alloc n s1 of
                  (existed, resize, s2) \<Rightarrow> open_stage cf f w alloc n existed resize s2))"
  unfolding cached_file_open_def mkdir_stage_def prepare_stage_def open_stage_def Let_def prod.case
  by (rule refl)

lemma mkdir_stage_frame:
  assumes "mkdir_stage f w s = (e, s1)"
  shows "os_step s s1"
proof (cases w)
  case False
  then show ?thesis using assms by (simp add: mkdir_stage_def)
next
  case True
  obtain r sm where mk: "tr_mkdirp (tr_sys_path_dirname f) s = (r, sm)"
    by (cases "tr_mkdirp (tr_sys_path_dirname f) s") auto
  have "s1 = sm" using assms True by (simp add: mkdir_stage_def mk)
  then show ?thesis using step_mkdirp [of s "tr_sys_path_dirname f"] mk by simp
qed

lemma prepare_stage_frame:
  assumes "prepare_stage f w alloc n s1 = (existed, resize, s2)"
  shows "os_step s1 s2"
proof -
  have "s2 = s1 \<or> s2 = snd (preallocate_file_full f n s1)"
    using assms by (auto simp: prepare_stage_def Let_def split: if_splits)
  then show ?thesis using step_full [of s1 f n] by auto
qed

lemma open_stage_frame:
  assumes r: "open_stage cf f w alloc n existed resize s2 = Inr (err, cf', s')"
  shows "opened_step s2 (fd cf') s' \<and> cf' = cf\<lparr>fd := fd cf'\<rparr>"
proof -
  let ?fl = "(if w \<or> resize then {TR_SYS_FILE_WRITE, TR_SYS_FILE_CREATE} else {})
                    \<union> {TR_SYS_FILE_READ, TR_SYS_FILE_SEQUENTIAL}"
  obtain h code s3 where op: "tr_sys_file_open f ?fl s2 = (h, code, s3)"
    by (cases "tr_sys_file_open f ?fl s2") auto
  have o3: "opened_step s2 h s3" using opened_step_open [of s2 f ?fl] op by simp
  have r1: "(if h = TR_BAD_SYS_FILE then Inr (code, cf\<lparr>fd := h\<rparr>, s3)
             else
               (case (if resize then tr_sys_file_truncate h n s3
                      else (True, 0, s3)) of
                  (False, code, s4) \<Rightarrow> Inr (code, cf\<lparr>fd := h\<rparr>, s4)
                | (True, _, s4) \<Rightarrow>
                    if (w \<or> resize) \<and> \<not> existed \<and> alloc = TR_PREALLOCATE_SPARSE
                    then (case preallocate_file_sparse h n s4 of
                            Inl a \<Rightarrow> Inl a
                          | Inr (_, s5) \<Rightarrow> Inr (0, cf\<lparr>fd := h\<rparr>, s5))
                    else Inr (0, cf\<lparr>fd := h\<rparr>, s4))) = Inr (err, cf', s')"
    using r unfolding open_stage_def Let_def op prod.case .
  show ?thesis
  proof (cases "h = TR_BAD_SYS_FILE")
    case True
    then have "cf' = cf\<lparr>fd := h\<rparr>" "s' = s3" using r1 by simp_all
    then show ?thesis using o3 by simp
  next
    case False
    obtain ok tc s4 where tr: "(if resize then tr_sys_file_truncate h n s3
                      else (True, 0, s3)) = (ok, tc, s4)"
      by (cases "if resize then tr_sys_file_truncate h n s3 else (True, 0, s3)") auto
    have "os_step s3 s4"
    proof (cases resize)
      case True
      then show ?thesis using tr step_truncate [of s3 h n] by simp
    next
      case False
      then show ?thesis using tr by simp
    qed
    with o3 have o4: "opened_step s2 h s4" by (rule opened_step_post)
    note hne = False
    show ?thesis
    proof (cases ok)
      case False
      then have "cf' = cf\<lparr>fd := h\<rparr>" "s' = s4" using r1 hne unfolding tr by simp_all
      then show ?thesis using o4 by simp
    next
      case True
      show ?thesis
      proof (cases "(w \<or> resize) \<and> \<not> existed \<and> alloc = TR_PREALLOCATE_SPARSE")
        case False
        then have "cf' = cf\<lparr>fd := h\<rparr>" "s' = s4" using r1 hne True unfolding tr by auto
        then show ?thesis using o4 by simp
      next
        case sp: True
        have r3: "(case preallocate_file_sparse h n s4 of
                            Inl a \<Rightarrow> Inl a
                          | Inr (_, s5) \<Rightarrow> Inr (0, cf\<lparr>fd := h\<rparr>, s5)) = Inr (err, cf', s')"
          using r1 hne True sp unfolding tr by simp
        then obtain b s5 where s5: "preallocate_file_sparse h n s4 = Inr (b, s5)"
          by (cases "preallocate_file_sparse h n s4") auto
        have "cf' = cf\<lparr>fd := h\<rparr>" "s' = s5" using r3 unfolding s5 by simp_all
        moreover have "opened_step s2 h s5"
          using o4 step_sparse [OF s5] by (rule opened_step_post)
        ultimately show ?thesis by simp
      qed
    qed
  qed
qed

lemma cached_file_open_frame:
  assumes r: "cached_file_open cf f w alloc n s = Inr (err, cf', s')"
    and closed: "fd cf = TR_BAD_SYS_FILE"
  shows "opened_step s (fd cf') s'"
proof -
  obtain e s1 where m: "mkdir_stage f w s = (e, s1)"
    by (cases "mkdir_stage f w s") auto
  have st1: "os_step s s1" using m by (rule mkdir_stage_frame)
  show ?thesis
  proof (cases "e \<noteq> 0")
    case True
    then have "cf' = cf" "s' = s1" using r unfolding cached_file_open_stages m by simp_all
    then show ?thesis using st1 closed by (simp add: opened_step_none)
  next
    case False
    obtain existed resize s2 where p: "prepare_stage f w alloc n s1 = (existed, resize, s2)"
      by (cases "prepare_stage f w alloc n s1") auto
    have st2: "os_step s1 s2" using p by (rule prepare_stage_frame)
    have "open_stage cf f w alloc n existed resize s2 = Inr (err, cf', s')"
      using r False unfolding cached_file_open_stages m by (simp add: p)
    then have "opened_step s2 (fd cf') s'" using open_stage_frame by blast
    with st2 have "opened_step s1 (fd cf') s'" by (rule opened_step_pre)
    with st1 show ?thesis by (rule opened_step_pre)
  qed
qed

section \<open>The descriptors a session holds\<close>

lemma owned_subset:
  assumes "length fs' = length fs" "\<forall>j<length fs. j \<noteq> k \<longrightarrow> fs' ! j = fs ! j"
  shows "owned fs - {fd (fs ! k)} \<subseteq> owned fs'"
proof
  fix x assume "x \<in> owned fs - {fd (fs ! k)}"
  then obtain cf where cf: "cf \<in> set fs" "cached_file_is_open cf" "x = fd cf" "x \<noteq> fd (fs ! k)"
    by (auto simp: owned_def)
  then obtain j where j: "j < length fs" "fs ! j = cf" by (auto simp: in_set_conv_nth)
  with cf have "j \<noteq> k" by auto
  with j assms have "fs' ! j = cf" "j < length fs'" by auto
  then have "cf \<in> set fs'" by (auto simp: in_set_conv_nth)
  with cf show "x \<in> owned fs'" by (auto simp: owned_def)
qed

lemma owned_nth:
  "k < length fs \<Longrightarrow> cached_file_is_open (fs ! k) \<Longrightarrow> fd (fs ! k) \<in> owned fs"
  by (auto simp: owned_def)

lemma owned_not_bad: "TR_BAD_SYS_FILE \<notin> owned fs"
  by (auto simp: owned_def cached_file_is_open_def)

lemma owned_card: "finite (owned fs) \<and> card (owned fs) \<le> length fs"
proof -
  have f: "finite {cf \<in> set fs. cached_file_is_open cf}" by simp
  have "card (owned fs) \<le> card {cf \<in> set fs. cached_file_is_open cf}"
    unfolding owned_def using f by (rule card_image_le)
  also have "\<dots> \<le> card (set fs)" by (rule card_mono) auto
  also have "\<dots> \<le> length fs" by (rule card_length)
  finally show ?thesis using f by (simp add: owned_def)
qed

text \<open>A checkout keeps every open descriptor in a slot.\<close>

lemma checkout_frame:
  assumes i: "fdInfo session = Some info"
    and r: "tr_fdFileCheckout session tid i f w alloc n s = Inr (h, session', s')"
    and inv: "dom (fds s) \<subseteq> owned (fileset info)"
  shows "dom (fds s') \<subseteq> owned (session_fileset session') \<and>
         length (session_fileset session') = length (fileset info) \<and>
         (\<exists>info'. fdInfo session' = Some info')"
proof (cases "cache_serves (fileset info) tid i w")
  case True
  then obtain k where k: "fileset_lookup (fileset info) tid i = Some k"
    "\<not> (w \<and> \<not> is_writable (fileset info ! k))"
    by (auto simp: cache_serves_def split: option.splits)
  note l = lookup_Some [OF k(1)]
  let ?fs = "(fileset info)[k := (fileset info ! k)\<lparr>torrent_id := tid, file_index := i, used_at := clock s\<rparr>]"
  have res: "session' = put_fileset session ?fs" "s' = s"
    using checkout_hit [OF i k, of f alloc n s] r by auto
  have o: "cached_file_is_open (?fs ! k)" "fd (?fs ! k) = fd (fileset info ! k)" "k < length ?fs"
    using l by (auto simp: slot_matches_def cached_file_is_open_def)
  have "owned (fileset info) - {fd (fileset info ! k)} \<subseteq> owned ?fs"
    by (rule owned_subset) auto
  moreover have "fd (fileset info ! k) \<in> owned ?fs"
    using owned_nth [OF o(3,1)] o(2) by simp
  ultimately have "owned (fileset info) \<subseteq> owned ?fs" by blast
  with inv have "dom (fds s) \<subseteq> owned ?fs" by (rule subset_trans)
  then show ?thesis using res i by simp
next
  case False
  have ne: "fileset info \<noteq> []"
    using checkout_no_slots [OF i] r by auto
  obtain k fs1 s1 where acq: "acquire_slot (fileset info) tid i w s = Inr (Some k, fs1, s1)"
    using acquire_total [OF False ne] by blast
  note a = acquire_for_open [OF False acq]
  have kl: "k < length fs1" "\<not> cached_file_is_open (fs1 ! k)" "length fs1 = length (fileset info)"
    using a by (auto simp: cached_file_is_open_def)
  note co = checkout_open [OF i acq kl(2) kl(1), of f alloc n]
  obtain err cf s2 where o: "cached_file_open (fs1 ! k) f w alloc n s1 = Inr (err, cf, s2)"
    using r by (auto simp: co split: sum.splits)
  have bad: "fd (fs1 ! k) = TR_BAD_SYS_FILE" using kl(2) by (simp add: cached_file_is_open_def)
  have fr: "opened_step s1 (fd cf) s2" using o bad by (rule cached_file_open_frame)
  let ?cf = "cf\<lparr>is_writable := w, torrent_id := tid, file_index := i, used_at := clock s2\<rparr>"
  obtain c where res: "session' = put_fileset session (fs1[k := c])" "fd c = fd cf" "fds s' = fds s2"
  proof (cases "err \<noteq> 0")
    case True
    then have "session' = put_fileset session (fs1[k := cf])" "fds s' = fds s2"
      using r o by (auto simp: co)
    then show ?thesis using that by simp
  next
    case False
    then have "session' = put_fileset session (fs1[k := ?cf])" "fds s' = fds s2"
      using r o by (auto simp: co)
    then show ?thesis using that [of ?cf] by simp
  qed
  let ?fs = "fs1[k := c]"
  have d1: "dom (fds s1) \<subseteq> owned (fileset info) - {fd (fileset info ! k)}"
  proof -
    from a have "s1 = s \<and> \<not> cached_file_is_open (fileset info ! k) \<or>
          s1 = tr_sys_file_close (fd (fileset info ! k)) s \<and> cached_file_is_open (fileset info ! k)"
      by blast
    then show ?thesis
    proof
      assume c: "s1 = s \<and> \<not> cached_file_is_open (fileset info ! k)"
      then have "fd (fileset info ! k) \<notin> owned (fileset info)"
        using owned_not_bad [of "fileset info"] by (simp add: cached_file_is_open_def)
      then show ?thesis using inv c by blast
    next
      assume c: "s1 = tr_sys_file_close (fd (fileset info ! k)) s \<and> cached_file_is_open (fileset info ! k)"
      then have "dom (fds s1) = dom (fds s) - {fd (fileset info ! k)}" by simp
      then show ?thesis using inv by blast
    qed
  qed
  have "owned (fileset info) - {fd (fileset info ! k)} \<subseteq> owned ?fs"
    using a kl by (intro owned_subset) auto
  with d1 have d2: "dom (fds s1) \<subseteq> owned ?fs" by (rule subset_trans)
  have "dom (fds s2) \<subseteq> owned ?fs"
  proof (cases "fd cf = TR_BAD_SYS_FILE")
    case True
    then have "dom (fds s2) \<subseteq> dom (fds s1)" using fr by (simp add: opened_step_def)
    then show ?thesis using d2 by (rule subset_trans)
  next
    case False
    then have "dom (fds s2) \<subseteq> insert (fd cf) (dom (fds s1))" using fr by (simp add: opened_step_def)
    moreover have "fd cf \<in> owned ?fs"
      using owned_nth [of k ?fs] kl(1) False res(2) by (simp add: cached_file_is_open_def)
    ultimately show ?thesis using d2 by blast
  qed
  then show ?thesis using res i kl by simp
qed

lemma ensure_fdInfo:
  assumes "fdInfo session = None"
  shows "fdInfo (fst (ensureSessionFdInfoExists session s)) =
           Some \<lparr>peerCount = 0, fileset = fileset_construct FILE_CACHE_SIZE\<rparr>"
  using assms
  by (simp add: ensureSessionFdInfoExists_def Let_def split: prod.splits)

lemma checkout_fresh:
  "tr_fdFileCheckout session tid i f w alloc n s =
   tr_fdFileCheckout (fst (ensureSessionFdInfoExists session s)) tid i f w alloc n
     (snd (ensureSessionFdInfoExists session s))"
proof -
  obtain session1 s1 where e: "ensureSessionFdInfoExists session s = (session1, s1)"
    by (cases "ensureSessionFdInfoExists session s")
  have ne: "fdInfo session1 \<noteq> None" using ensure_cases [OF e] by simp
  obtain a b where ab: "ensureSessionFdInfoExists session1 s1 = (a, b)"
    by (cases "ensureSessionFdInfoExists session1 s1")
  from ensure_cases [OF ab] ne have "a = session1" "b = s1" by auto
  with ab have "ensureSessionFdInfoExists session1 s1 = (session1, s1)" by simp
  then have "get_fileset session1 s1 = get_fileset session s"
    by (simp add: get_fileset_def e)
  then show ?thesis by (simp add: tr_fdFileCheckout_def e)
qed

lemma owned_construct: "owned (fileset_construct n) = {}"
  by (auto simp: owned_def fileset_construct_def TR_CACHED_FILE_INIT_def cached_file_is_open_def)

lemma checkout_holds:
  assumes "holds_descriptors session s"
    "tr_fdFileCheckout session tid i f w alloc n (s\<lparr>clock := t\<rparr>) = Inr (h, session', s')"
  shows "holds_descriptors session' s'"
proof (cases "fdInfo session")
  case (Some info)
  have "dom (fds (s\<lparr>clock := t\<rparr>)) \<subseteq> owned (fileset info)"
    using assms(1) Some by (simp add: holds_descriptors_def session_fileset_def)
  from checkout_frame [OF Some assms(2) this] assms(1) Some
  show ?thesis by (simp add: holds_descriptors_def session_fileset_def)
next
  case None
  let ?e = "ensureSessionFdInfoExists session (s\<lparr>clock := t\<rparr>)"
  have fi: "fdInfo (fst ?e) = Some \<lparr>peerCount = 0, fileset = fileset_construct FILE_CACHE_SIZE\<rparr>"
    using None by (rule ensure_fdInfo)
  have "fds (snd ?e) = fds (s\<lparr>clock := t\<rparr>)"
    using ensure_cases [of session "s\<lparr>clock := t\<rparr>" "fst ?e" "snd ?e"] by simp
  moreover have "dom (fds s) = {}"
    using assms(1) None by (simp add: holds_descriptors_def session_fileset_def owned_def)
  ultimately have d: "dom (fds (snd ?e)) \<subseteq>
      owned (fileset \<lparr>peerCount = 0, fileset = fileset_construct FILE_CACHE_SIZE\<rparr>)"
    by simp
  have r: "tr_fdFileCheckout (fst ?e) tid i f w alloc n (snd ?e) = Inr (h, session', s')"
    using assms(2) checkout_fresh [of session tid i f w alloc n "s\<lparr>clock := t\<rparr>"] by simp
  from checkout_frame [OF fi r d]
  show ?thesis by (simp add: holds_descriptors_def fileset_construct_def)
qed

lemma run_holds:
  "holds_descriptors session s \<Longrightarrow> run_checkouts rs session s = Inr (hs, session', s') \<Longrightarrow>
     holds_descriptors session' s'"
proof (induction rs arbitrary: session s hs)
  case Nil
  then show ?case by simp
next
  case (Cons rq rs)
  obtain t tid i f w alloc n where rq: "rq = Checkout t tid i f w alloc n" by (cases rq)
  from Cons.prems(2) obtain h session1 s1 hs1 where
    c: "tr_fdFileCheckout session tid i f w alloc n (s\<lparr>clock := t\<rparr>) = Inr (h, session1, s1)"
    and rest: "run_checkouts rs session1 s1 = Inr (hs1, session', s')"
    by (auto simp: rq split: sum.splits)
  have "holds_descriptors session1 s1" using Cons.prems(1) c by (rule checkout_holds)
  then show ?case using rest by (rule Cons.IH)
qed

text \<open>A checkout that finds neither the identity nor a closed slot.\<close>

lemma checkout_evicts:
  assumes i: "fdInfo session = Some info"
    and miss: "fileset_lookup (fileset info) tid i = None"
    and full: "find_unused_slot (fileset info) = None"
    and r: "tr_fdFileCheckout session tid i f w alloc n s = Inr (h, session', s')"
  shows "\<exists>k. k < length (fileset info) \<and>
           (\<forall>m<length (fileset info). used_at (fileset info ! k) \<le> used_at (fileset info ! m)) \<and>
           cached_file_is_open (fileset info ! k) \<and>
           (\<exists>post. issued s s' = CloseFile (fd (fileset info ! k)) # post) \<and>
           length (session_fileset session') = length (fileset info) \<and>
           (\<forall>j<length (fileset info). j \<noteq> k \<longrightarrow> session_fileset session' ! j = fileset info ! j) \<and>
           (h \<noteq> TR_BAD_SYS_FILE \<longrightarrow>
              fd (session_fileset session' ! k) = h \<and>
              torrent_id (session_fileset session' ! k) = tid \<and>
              file_index (session_fileset session' ! k) = i)"
proof -
  have nc: "\<not> cache_serves (fileset info) tid i w" using miss by (simp add: cache_serves_def)
  have ne: "fileset info \<noteq> []" using checkout_no_slots [OF i] r by auto
  from acquire_cases [of "fileset info" tid i w s] miss full ne
  obtain k where k: "k < length (fileset info)" "cached_file_is_open (fileset info ! k)"
    "\<forall>m<length (fileset info). used_at (fileset info ! k) \<le> used_at (fileset info ! m)"
    and acq: "acquire_slot (fileset info) tid i w s =
          Inr (Some k, (fileset info)[k := (fileset info ! k)\<lparr>fd := TR_BAD_SYS_FILE\<rparr>],
               tr_sys_file_close (fd (fileset info ! k)) s)"
    by auto
  let ?fs1 = "(fileset info)[k := (fileset info ! k)\<lparr>fd := TR_BAD_SYS_FILE\<rparr>]"
  let ?s1 = "tr_sys_file_close (fd (fileset info ! k)) s"
  have kl: "k < length ?fs1" "\<not> cached_file_is_open (?fs1 ! k)"
    using k(1) by (simp_all add: cached_file_is_open_def)
  note co = checkout_open [OF i acq kl(2) kl(1), of f alloc n]
  obtain err cf s2 where o: "cached_file_open (?fs1 ! k) f w alloc n ?s1 = Inr (err, cf, s2)"
    using r by (auto simp: co split: sum.splits)
  have bad: "fd (?fs1 ! k) = TR_BAD_SYS_FILE" using kl(2) by (simp add: cached_file_is_open_def)
  have "opened_step ?s1 (fd cf) s2" using o bad by (rule cached_file_open_frame)
  then obtain xs where "calls s2 = calls ?s1 @ xs" by (auto simp: opened_step_def)
  then have c2: "calls s2 = calls s @ (CloseFile (fd (fileset info ! k)) # xs)" by simp
  let ?cf = "cf\<lparr>is_writable := w, torrent_id := tid, file_index := i, used_at := clock s2\<rparr>"
  have res: "calls s' = calls s2 \<and>
    (h = TR_BAD_SYS_FILE \<and> session' = put_fileset session (?fs1[k := cf]) \<or>
     h = fd cf \<and> session' = put_fileset session (?fs1[k := ?cf]))"
    using r o by (auto simp: co split: if_splits)
  have iss: "\<exists>post. issued s s' = CloseFile (fd (fileset info ! k)) # post"
    using res c2 by (simp add: issued_def)
  from res have "h = TR_BAD_SYS_FILE \<and> session' = put_fileset session (?fs1[k := cf]) \<or>
     h = fd cf \<and> session' = put_fileset session (?fs1[k := ?cf])" by blast
  then show ?thesis
  proof
    assume "h = TR_BAD_SYS_FILE \<and> session' = put_fileset session (?fs1[k := cf])"
    then show ?thesis using k iss i by (intro exI [of _ k]) simp
  next
    assume "h = fd cf \<and> session' = put_fileset session (?fs1[k := ?cf])"
    then show ?thesis using k iss i by (intro exI [of _ k]) simp
  qed
qed
text \<open>
  C8. \<^verbatim>\<open>tr_fdSocketCreate\<close> refuses, returning -1 and issuing no \<^verbatim>\<open>socket\<close> call, whenever the
  socket count has reached \<^verbatim>\<open>peerLimit\<close>; the count goes up by one exactly when the call hands
  out a socket. With a limit of 2 and a system that does not fail, three creations give two
  sockets and one refusal, the open sockets being the two handed out; closing one of them
  takes the count down by one and the next creation succeeds.
\<close>

theorem socket_admission:
  "(peerLimit session \<le> socket_count session \<and> 0 \<le> socket_count session \<longrightarrow>
      (\<exists>session' s'. tr_fdSocketCreate session s = Inr (- 1, session', s') \<and>
         CreateSocket \<notin> set (issued s s') \<and> socks s' = socks s \<and>
         socket_count session' = socket_count session)) \<and>
   (\<forall>r session' s'. tr_fdSocketCreate session s = Inr (r, session', s') \<longrightarrow>
      socket_count session' = socket_count session + (if 0 \<le> r then 1 else 0) \<and>
      socks s' = (if 0 \<le> r then insert r (socks s) else socks s) \<and>
      (0 \<le> r \<longrightarrow> CreateSocket \<in> set (issued s s'))) \<and>
   (peerLimit session = 2 \<and> socket_count session = 0 \<and> faults s = [] \<longrightarrow>
      (\<exists>r1 r2 r4 ses1 s1 ses2 s2 ses3 s3 ses4 s4 ses5 s5.
         tr_fdSocketCreate session s = Inr (r1, ses1, s1) \<and> 0 \<le> r1 \<and>
         tr_fdSocketCreate ses1 s1 = Inr (r2, ses2, s2) \<and> 0 \<le> r2 \<and>
         tr_fdSocketCreate ses2 s2 = Inr (- 1, ses3, s3) \<and>
         CreateSocket \<notin> set (issued s2 s3) \<and> socks s3 = insert r2 (insert r1 (socks s)) \<and>
         tr_fdSocketClose ses3 r1 s3 = Inr (ses4, s4) \<and>
         socket_count ses4 = socket_count ses3 - 1 \<and>
         tr_fdSocketCreate ses4 s4 = Inr (r4, ses5, s5) \<and> 0 \<le> r4))"
proof (intro conjI impI allI)
  assume "peerLimit session \<le> socket_count session \<and> 0 \<le> socket_count session"
  then show "\<exists>session' s'. tr_fdSocketCreate session s = Inr (- 1, session', s') \<and>
         CreateSocket \<notin> set (issued s s') \<and> socks s' = socks s \<and>
         socket_count session' = socket_count session"
    using socket_create_refused [of session s] by blast
next
  fix r session' s'
  assume a: "tr_fdSocketCreate session s = Inr (r, session', s')"
  show "socket_count session' = socket_count session + (if 0 \<le> r then 1 else 0)"
    using socket_create_result [OF a] by blast
  show "socks s' = (if 0 \<le> r then insert r (socks s) else socks s)"
    using socket_create_result [OF a] by blast
  assume "0 \<le> r"
  then show "CreateSocket \<in> set (issued s s')"
    using socket_create_result [OF a] by blast
next
  assume h: "peerLimit session = 2 \<and> socket_count session = 0 \<and> faults s = []"
  obtain r1 ses1 s1 where c1: "tr_fdSocketCreate session s = Inr (r1, ses1, s1)"
    using socket_create_total [of session s] h by auto
  note f1 = socket_create_result [OF c1]
  have p1: "0 \<le> r1" "socket_count ses1 = 1" "peerLimit ses1 = 2" "faults s1 = []"
    "socks s1 = insert r1 (socks s)"
    using f1 h by auto
  obtain r2 ses2 s2 where c2: "tr_fdSocketCreate ses1 s1 = Inr (r2, ses2, s2)"
    using socket_create_total [of ses1 s1] p1 by auto
  note f2 = socket_create_result [OF c2]
  have p2: "0 \<le> r2" "socket_count ses2 = 2" "peerLimit ses2 = 2" "faults s2 = []"
    "socks s2 = insert r2 (insert r1 (socks s))"
    using f2 p1 by auto
  obtain ses3 s3 where c3: "tr_fdSocketCreate ses2 s2 = Inr (- 1, ses3, s3)"
    "CreateSocket \<notin> set (issued s2 s3)"
    using socket_create_refused [of ses2 s2] p2 by auto
  note f3 = socket_create_result [OF c3(1)]
  have p3: "socket_count ses3 = 2" "peerLimit ses3 = 2" "faults s3 = []"
    "socks s3 = insert r2 (insert r1 (socks s))" "fdInfo ses3 \<noteq> None"
    using f3 p2 by auto
  obtain ses4 s4 where c4: "tr_fdSocketClose ses3 r1 s3 = Inr (ses4, s4)"
    "socket_count ses4 = socket_count ses3 - 1" "peerLimit ses4 = peerLimit ses3"
    "faults s4 = faults s3"
    using socket_close_result [of ses3 r1 s3] p3 p1 by auto
  obtain r4 ses5 s5 where c5: "tr_fdSocketCreate ses4 s4 = Inr (r4, ses5, s5)"
    using socket_create_total [of ses4 s4] c4 p3 by auto
  note f5 = socket_create_result [OF c5]
  have "0 \<le> r4" using f5 c4 p3 by auto
  then show "\<exists>r1 r2 r4 ses1 s1 ses2 s2 ses3 s3 ses4 s4 ses5 s5.
         tr_fdSocketCreate session s = Inr (r1, ses1, s1) \<and> 0 \<le> r1 \<and>
         tr_fdSocketCreate ses1 s1 = Inr (r2, ses2, s2) \<and> 0 \<le> r2 \<and>
         tr_fdSocketCreate ses2 s2 = Inr (- 1, ses3, s3) \<and>
         CreateSocket \<notin> set (issued s2 s3) \<and> socks s3 = insert r2 (insert r1 (socks s)) \<and>
         tr_fdSocketClose ses3 r1 s3 = Inr (ses4, s4) \<and>
         socket_count ses4 = socket_count ses3 - 1 \<and>
         tr_fdSocketCreate ses4 s4 = Inr (r4, ses5, s5) \<and> 0 \<le> r4"
    using c1 p1 c2 p2 c3 p3 c4 c5 by blast
qed

theorem socket_admission_witness:
  "(\<exists>session' s'. tr_fdSocketCreate (example_session 2 2) example_os = Inr (- 1, session', s') \<and>
         CreateSocket \<notin> set (issued example_os s') \<and> socks s' = socks example_os \<and>
         socket_count session' = socket_count (example_session 2 2)) \<and>
   (\<exists>r1 r2 r4 ses1 s1 ses2 s2 ses3 s3 ses4 s4 ses5 s5.
         tr_fdSocketCreate (fresh_session 2) example_os = Inr (r1, ses1, s1) \<and> 0 \<le> r1 \<and>
         tr_fdSocketCreate ses1 s1 = Inr (r2, ses2, s2) \<and> 0 \<le> r2 \<and>
         tr_fdSocketCreate ses2 s2 = Inr (- 1, ses3, s3) \<and>
         CreateSocket \<notin> set (issued s2 s3) \<and> socks s3 = insert r2 (insert r1 (socks example_os)) \<and>
         tr_fdSocketClose ses3 r1 s3 = Inr (ses4, s4) \<and>
         socket_count ses4 = socket_count ses3 - 1 \<and>
         tr_fdSocketCreate ses4 s4 = Inr (r4, ses5, s5) \<and> 0 \<le> r4)"
proof -
  have a: "peerLimit (example_session 2 2) \<le> socket_count (example_session 2 2) \<and>
           0 \<le> socket_count (example_session 2 2)"
    by (simp add: example_session_def socket_count_def)
  have b: "peerLimit (fresh_session 2) = 2 \<and> socket_count (fresh_session 2) = 0 \<and>
           faults example_os = []"
    by (simp add: fresh_session_def socket_count_def example_os_def)
  show ?thesis
    using socket_admission [of "example_session 2 2" example_os] a
      socket_admission [of "fresh_session 2" example_os] b
    by blast
qed
text \<open>
  C9, as the claim states it, fails: a creation refused because the budget is used up and a
  creation that the system fails both return -1.
\<close>

theorem socket_refusal_same_result_counterexample:
  "peerLimit (example_session 2 2) \<le> socket_count (example_session 2 2) \<and>
   tr_fdSocketCreate (example_session 2 2) example_os =
     Inr (- 1, example_session 2 2, example_os) \<and>
   socket_count (example_session 0 2) < peerLimit (example_session 0 2) \<and>
   tr_fdSocketCreate (example_session 0 2) (example_os\<lparr>faults := [Some 24]\<rparr>) =
     Inr (- 1, example_session 0 2, example_os\<lparr>errno := 24, calls := [CreateSocket]\<rparr>)"
  by (simp add: tr_fdSocketCreate_def ensureSessionFdInfoExists_def example_session_def
      example_os_def socket_count_def socket_def take_fault_def log_call_def)

text \<open>
  C9, amended: every creation that hands out no socket returns -1, whether the budget was
  used up (no \<^verbatim>\<open>socket\<close> call issued) or the \<^verbatim>\<open>socket\<close> call was issued and failed; the
  result alone does not tell the two apart.
\<close>

theorem socket_failure_result:
  assumes "tr_fdSocketCreate session s = Inr (r, session', s')"
  shows "(peerLimit session \<le> socket_count session \<longrightarrow>
            r = - 1 \<and> CreateSocket \<notin> set (issued s s')) \<and>
         (socket_count session < peerLimit session \<longrightarrow>
            CreateSocket \<in> set (issued s s') \<and> (r < 0 \<longrightarrow> r = - 1))"
proof (intro conjI impI)
  assume h: "peerLimit session \<le> socket_count session"
  have "0 \<le> socket_count session"
  proof -
    obtain session1 s1 where e: "ensureSessionFdInfoExists session s = (session1, s1)"
      by (cases "ensureSessionFdInfoExists session s")
    note f = ensure_cases [OF e]
    from f obtain gFd where g: "fdInfo session1 = Some gFd" by auto
    have c: "socket_count session = peerCount gFd" "peerLimit session1 = peerLimit session"
      using f g by (auto simp: socket_count_def)
    show ?thesis using assms e g c h
      by (auto simp: tr_fdSocketCreate_def split: if_splits)
  qed
  with h socket_create_refused [of session s] assms
  show "r = - 1" "CreateSocket \<notin> set (issued s s')" by auto
next
  assume h: "socket_count session < peerLimit session"
  show "CreateSocket \<in> set (issued s s')" using socket_create_attempt [OF assms h] .
  assume "r < 0"
  then show "r = - 1" using socket_create_result [OF assms] by blast
qed

theorem socket_failure_result_witness:
  "tr_fdSocketCreate (example_session 2 2) example_os =
     Inr (- 1, example_session 2 2, example_os) \<and>
   CreateSocket \<notin> set (issued example_os example_os) \<and>
   tr_fdSocketCreate (example_session 0 2) (example_os\<lparr>faults := [Some 24]\<rparr>) =
     Inr (- 1, example_session 0 2, example_os\<lparr>errno := 24, calls := [CreateSocket]\<rparr>) \<and>
   CreateSocket \<in> set (issued (example_os\<lparr>faults := [Some 24]\<rparr>)
                           (example_os\<lparr>errno := 24, calls := [CreateSocket]\<rparr>))"
proof -
  have r: "tr_fdSocketCreate (example_session 2 2) example_os =
     Inr (- 1, example_session 2 2, example_os)"
    by (simp add: tr_fdSocketCreate_def ensureSessionFdInfoExists_def example_session_def)
  have rb: "peerLimit (example_session 2 2) \<le> socket_count (example_session 2 2)"
    by (simp add: example_session_def socket_count_def)
  have a: "tr_fdSocketCreate (example_session 0 2) (example_os\<lparr>faults := [Some 24]\<rparr>) =
     Inr (- 1, example_session 0 2, example_os\<lparr>errno := 24, calls := [CreateSocket]\<rparr>)"
    by (simp add: tr_fdSocketCreate_def ensureSessionFdInfoExists_def example_session_def
      example_os_def socket_def take_fault_def log_call_def)
  have b: "socket_count (example_session 0 2) < peerLimit (example_session 0 2)"
    by (simp add: example_session_def socket_count_def)
  show ?thesis
    using socket_failure_result [OF r] r rb socket_failure_result [OF a] a b by blast
qed
text \<open>
  C2, as the claim states it, fails: with a soft limit of 4096, a hard limit of 4096 and
  \<^verbatim>\<open>FD_SETSIZE\<close> 1024 the computed limit, 1024, does not increase the soft limit, and the soft
  limit is lowered to it.
\<close>

theorem limit_lowered_counterexample:
  "negotiated_limit (example_os\<lparr>rlim_cur := 4096\<rparr>) = 1024 \<and>
   rlim_cur (example_os\<lparr>rlim_cur := 4096\<rparr>) = 4096 \<and>
   rlim_cur (snd (ensureSessionFdInfoExists (fresh_session 2) (example_os\<lparr>rlim_cur := 4096\<rparr>))) = 1024"
proof -
  have n: "negotiated_limit (example_os\<lparr>rlim_cur := 4096\<rparr>) = 1024"
    by (simp add: negotiated_limit_def example_os_def)
  have "rlim_cur (snd (ensureSessionFdInfoExists (fresh_session 2) (example_os\<lparr>rlim_cur := 4096\<rparr>))) =
        (if (ucast (negotiated_limit (example_os\<lparr>rlim_cur := 4096\<rparr>)) :: 32 word) \<noteq> ucast (rlim_cur (example_os\<lparr>rlim_cur := 4096\<rparr>))
            then negotiated_limit (example_os\<lparr>rlim_cur := 4096\<rparr>) else rlim_cur (example_os\<lparr>rlim_cur := 4096\<rparr>))"
    using ensure_fresh [of "fresh_session 2" "example_os\<lparr>rlim_cur := 4096\<rparr>"]
    by (simp add: fresh_session_def example_os_def)
  then show ?thesis using n by (simp add: example_os_def)
qed

text \<open>
  C2, amended: with a positive \<^verbatim>\<open>FD_SETSIZE\<close>, \<^verbatim>\<open>ensureSessionFdInfoExists\<close> sets the soft limit
  to the minimum of the hard limit and \<^verbatim>\<open>FD_SETSIZE\<close> exactly when the session has no
  \<^verbatim>\<open>fdInfo\<close> yet, \<^verbatim>\<open>getrlimit\<close> succeeds, that minimum differs from the soft limit (both
  read as C \<^verbatim>\<open>int\<close>s) and \<^verbatim>\<open>setrlimit\<close> succeeds, whether that raises or lowers the soft
  limit; in every other case the soft limit is left as it was.
\<close>

theorem limit_negotiation:
  assumes "ensureSessionFdInfoExists session s = (session', s')"
    "0 < sint (fd_setsize s)"
  shows "rlim_cur s' =
           (if fdInfo session = None \<and> call_ok 0 s \<and>
               (ucast (negotiated_limit s) :: 32 word) \<noteq> ucast (rlim_cur s) \<and> call_ok 1 s
            then negotiated_limit s else rlim_cur s)"
proof (cases "fdInfo session = None")
  case False
  then show ?thesis using ensure_cases [OF assms(1)] by auto
next
  case True
  have le: "negotiated_limit s \<le> scast (fd_setsize s)" "negotiated_limit s \<le> rlim_max s"
    by (simp_all add: negotiated_limit_def)
  have k: "(scast (ucast (negotiated_limit s) :: 32 word) :: 64 word) = negotiated_limit s"
    using assms(2) le(1) by (rule narrow_back)
  show ?thesis
  proof (cases "call_ok 0 s")
    case False
    then have "s' = snd (snd (getrlimit s))"
      using assms(1) True by (auto simp: ensureSessionFdInfoExists_def getrlimit_result Let_def)
    then show ?thesis using False by (simp add: getrlimit_keeps_limit)
  next
    case ok: True
    let ?s1 = "s\<lparr>faults := tl (faults s), calls := calls s @ [GetRlimit]\<rparr>"
    have g: "getrlimit s = (0, \<lparr>rlimit_cur = rlim_cur s, rlimit_max = rlim_max s\<rparr>, ?s1)"
      using ok by (simp add: getrlimit_result)
    show ?thesis
    proof (cases "(ucast (negotiated_limit s) :: 32 word) = ucast (rlim_cur s)")
      case same: True
      then have "s' = ?s1"
        using assms(1) True
        by (simp add: ensureSessionFdInfoExists_def g Let_def negotiated_limit_def [symmetric])
      then show ?thesis using same by simp
    next
      case differ: False
      let ?s2 = "snd (setrlimit \<lparr>rlimit_cur = negotiated_limit s, rlimit_max = rlim_max ?s1\<rparr> ?s1)"
      have "s' = snd (snd (getrlimit ?s2))"
        using assms(1) True differ k
        by (simp add: ensureSessionFdInfoExists_def g Let_def negotiated_limit_def [symmetric]
            case_prod_beta)
      then have "rlim_cur s' = rlim_cur ?s2" by (simp only: getrlimit_keeps_limit)
      also have "\<dots> = (if call_ok 0 ?s1 then negotiated_limit s else rlim_cur ?s1)"
        using le(2) by (intro setrlimit_result) simp
      also have "\<dots> = (if call_ok 1 s then negotiated_limit s else rlim_cur s)"
        by (simp add: call_ok_tl)
      finally show ?thesis using True ok differ by simp
    qed
  qed
qed

theorem limit_negotiation_witness:
  "rlim_cur (snd (ensureSessionFdInfoExists (fresh_session 2) (example_os\<lparr>rlim_cur := 4096\<rparr>))) = 1024 \<and>
   rlim_cur (snd (ensureSessionFdInfoExists (fresh_session 2)
       (example_os\<lparr>rlim_cur := 256, faults := [None, Some 1]\<rparr>))) = 256 \<and>
   rlim_cur (snd (ensureSessionFdInfoExists (fresh_session 2)
       (example_os\<lparr>rlim_cur := 256, faults := [Some 1]\<rparr>))) = 256 \<and>
   rlim_cur (snd (ensureSessionFdInfoExists (fresh_session 2) (example_os\<lparr>rlim_cur := 256\<rparr>))) = 1024 \<and>
   rlim_cur (snd (ensureSessionFdInfoExists (example_session 0 2) (example_os\<lparr>rlim_cur := 256\<rparr>))) = 256"
proof -
  have f: "fdInfo (fresh_session 2) = None" "fdInfo (example_session 0 2) \<noteq> None"
    by (simp_all add: fresh_session_def example_session_def)
  have h: "0 < sint (fd_setsize (example_os\<lparr>rlim_cur := c\<rparr>))"
    "0 < sint (fd_setsize (example_os\<lparr>rlim_cur := c, faults := fs\<rparr>))"
    "negotiated_limit (example_os\<lparr>rlim_cur := c\<rparr>) = 1024"
    "negotiated_limit (example_os\<lparr>rlim_cur := c, faults := fs\<rparr>) = 1024"
    "call_ok 0 (example_os\<lparr>rlim_cur := c\<rparr>)" "call_ok (Suc 0) (example_os\<lparr>rlim_cur := c\<rparr>)"
    "call_ok 0 (example_os\<lparr>rlim_cur := c, faults := [None, Some 1]\<rparr>)"
    "\<not> call_ok (Suc 0) (example_os\<lparr>rlim_cur := c, faults := [None, Some 1]\<rparr>)"
    "\<not> call_ok 0 (example_os\<lparr>rlim_cur := c, faults := [Some 1]\<rparr>)" for c fs
    by (simp_all add: example_os_def negotiated_limit_def call_ok_def)
  have p: "ensureSessionFdInfoExists a b = (fst (ensureSessionFdInfoExists a b), snd (ensureSessionFdInfoExists a b))" for a b
    by simp
  show ?thesis
    using limit_negotiation [OF p [of "fresh_session 2" "example_os\<lparr>rlim_cur := 4096\<rparr>"] h(1)]
      limit_negotiation [OF p [of "fresh_session 2" "example_os\<lparr>rlim_cur := 256, faults := [None, Some 1]\<rparr>"] h(2)]
      limit_negotiation [OF p [of "fresh_session 2" "example_os\<lparr>rlim_cur := 256, faults := [Some 1]\<rparr>"] h(2)]
      limit_negotiation [OF p [of "fresh_session 2" "example_os\<lparr>rlim_cur := 256\<rparr>"] h(1)]
      limit_negotiation [OF p [of "example_session 0 2" "example_os\<lparr>rlim_cur := 256\<rparr>"] h(1)]
    by (simp add: f h)
qed


section \<open>Sparse preallocation\<close>

lemma sparse_fallback:
  assumes "len \<noteq> 0" "len < 0x7FFFFFFFFFFFFFFF" "faults s = Some e # fs"
    "\<forall>f \<in> set (take 3 fs). f = None" "fds s h = Some en" "wr en"
  shows "\<exists>s'. preallocate_file_sparse h len s = Inr (True, s') \<and>
           issued s s' = [Preallocate h len True, Seek h (len - 1), WriteBytes h 1, Truncate h len] \<and>
           files s' (path en) = Some len"
proof -
  define s1 where "s1 = s\<lparr>faults := fs, calls := calls s @ [Preallocate h len True]\<rparr>"
  have p: "tr_sys_file_preallocate h len True s = (False, s1)"
    using assms(3) by (simp add: prealloc_rejected s1_def)
  have o1: "next_ok (Suc 2) s1" "fds s1 h = Some en"
    using assms by (simp_all add: s1_def numeral_3_eq_3)
  define s2 where "s2 = s1\<lparr>faults := tl (faults s1), calls := calls s1 @ [Seek h (len - 1)],
              fds := (fds s1)(h \<mapsto> en\<lparr>pos := len - 1\<rparr>)\<rparr>"
  have sk: "tr_sys_file_seek h (len - 1) s1 = (True, s2)"
    using seek_ok [OF o1] by (simp add: s2_def)
  have o2: "next_ok (Suc 1) s2" "fds s2 h = Some (en\<lparr>pos := len - 1\<rparr>)" "wr (en\<lparr>pos := len - 1\<rparr>)"
    using next_ok_tl [OF o1(1)] assms(6) by (simp_all add: s2_def numeral_2_eq_2)
  obtain s3 where w: "tr_sys_file_write h 1 s2 = (True, 1, s3)" and
    s3: "s3 = s2\<lparr>faults := tl (faults s2), calls := calls s2 @ [WriteBytes h 1],
              files := (files s2)(path en \<mapsto>
                         max (len - 1 + 1) (case files s2 (path en) of None \<Rightarrow> 0 | Some m \<Rightarrow> m)),
              fds := (fds s2)(h \<mapsto> en\<lparr>pos := len - 1 + 1\<rparr>)\<rparr>"
    using write_ok [OF o2, of 1] by simp
  have o3: "next_ok (Suc 0) s3" "fds s3 h = Some (en\<lparr>pos := len - 1 + 1\<rparr>)" "wr (en\<lparr>pos := len - 1 + 1\<rparr>)"
    using next_ok_tl [OF o2(1)] assms(6) by (simp_all add: s3)
  obtain s4 where t: "tr_sys_file_truncate h len s3 = (True, 0, s4)" and
    s4: "s4 = s3\<lparr>faults := tl (faults s3), calls := calls s3 @ [Truncate h len],
              files := (files s3)(path en \<mapsto> len)\<rparr>"
    using truncate_ok [OF o3, of len] by simp
  have "preallocate_file_sparse h len s = Inr (True, s4)"
    using assms(1,2) by (simp add: preallocate_file_sparse_def p sk w t del: One_nat_def)
  moreover have "issued s s4 = [Preallocate h len True, Seek h (len - 1), WriteBytes h 1, Truncate h len]"
    by (simp add: issued_def s4 s3 s2_def s1_def)
  moreover have "files s4 (path en) = Some len" by (simp add: s4)
  ultimately show ?thesis by blast
qed

text \<open>
  C7, as the claim states it, fails: the length \<open>2^63 - 1\<close> is below \<open>2^63\<close>, and when the
  system rejects the native preallocation the fallback's assertion fails on it.
\<close>

theorem sparse_assert_counterexample:
  "(0x7FFFFFFFFFFFFFFF :: nat) < 2 ^ 63 \<and>
   preallocate_file_sparse 3 0x7FFFFFFFFFFFFFFF sparse_os = Inl Assertion_failed"
  by (simp add: preallocate_file_sparse_def sparse_os_def example_os_def
      tr_sys_file_preallocate_def take_fault_def log_call_def)

text \<open>
  C7, amended: with length 0 \<^verbatim>\<open>preallocate_file_sparse\<close> reports success and issues no system
  call at all. When the system rejects the native sparse preallocation of a length that is not
  0 and below \<open>2^63 - 1\<close> (the asserted precondition), and the three calls of the fallback
  succeed on a writable descriptor, the calls issued are the rejected preallocation, a seek to
  \<open>length - 1\<close>, a write of one byte and a truncate to \<open>length\<close>, the result is success and the
  file is exactly \<open>length\<close> bytes long. From \<open>2^63 - 1\<close> on, the assertion fails.
\<close>

theorem sparse_preallocation:
  "preallocate_file_sparse h 0 s = Inr (True, s) \<and>
   (len \<noteq> 0 \<and> len < 0x7FFFFFFFFFFFFFFF \<and> faults s = Some e # fs \<and>
    (\<forall>f \<in> set (take 3 fs). f = None) \<and> fds s h = Some en \<and> wr en \<longrightarrow>
      (\<exists>s'. preallocate_file_sparse h len s = Inr (True, s') \<and>
         issued s s' = [Preallocate h len True, Seek h (len - 1), WriteBytes h 1, Truncate h len] \<and>
         files s' (path en) = Some len)) \<and>
   (len \<noteq> 0 \<and> \<not> len < 0x7FFFFFFFFFFFFFFF \<and> faults s = Some e # fs \<longrightarrow>
      preallocate_file_sparse h len s = Inl Assertion_failed)"
proof (intro conjI impI)
  show "preallocate_file_sparse h 0 s = Inr (True, s)"
    by (simp add: preallocate_file_sparse_def)
next
  assume "len \<noteq> 0 \<and> len < 0x7FFFFFFFFFFFFFFF \<and> faults s = Some e # fs \<and>
    (\<forall>f \<in> set (take 3 fs). f = None) \<and> fds s h = Some en \<and> wr en"
  then show "\<exists>s'. preallocate_file_sparse h len s = Inr (True, s') \<and>
         issued s s' = [Preallocate h len True, Seek h (len - 1), WriteBytes h 1, Truncate h len] \<and>
         files s' (path en) = Some len"
    using sparse_fallback [of len s e fs h en] by blast
next
  assume "len \<noteq> 0 \<and> \<not> len < 0x7FFFFFFFFFFFFFFF \<and> faults s = Some e # fs"
  then show "preallocate_file_sparse h len s = Inl Assertion_failed"
    by (simp add: preallocate_file_sparse_def prealloc_rejected)
qed

theorem sparse_preallocation_witness:
  "(\<exists>s'. preallocate_file_sparse 3 4096 sparse_os = Inr (True, s') \<and>
         issued sparse_os s' = [Preallocate 3 4096 True, Seek 3 4095, WriteBytes 3 1, Truncate 3 4096] \<and>
         files s' ''/t/n'' = Some 4096) \<and>
   preallocate_file_sparse 3 0x7FFFFFFFFFFFFFFF sparse_os = Inl Assertion_failed"
proof -
  have a: "(4096::nat) \<noteq> 0 \<and> (4096::nat) < 0x7FFFFFFFFFFFFFFF \<and> faults sparse_os = Some 95 # [] \<and>
    (\<forall>f \<in> set (take 3 []). f = None) \<and>
    fds sparse_os 3 = Some \<lparr>path = ''/t/n'', wr = True, pos = 0\<rparr> \<and>
    wr \<lparr>path = ''/t/n'', wr = True, pos = 0\<rparr>"
    by (simp add: sparse_os_def example_os_def)
  have b: "(0x7FFFFFFFFFFFFFFF::nat) \<noteq> 0 \<and> \<not> (0x7FFFFFFFFFFFFFFF::nat) < 0x7FFFFFFFFFFFFFFF \<and>
    faults sparse_os = Some 95 # []"
    by (simp add: sparse_os_def example_os_def)
  show ?thesis
    using sparse_preallocation [of 3 sparse_os 4096 95 "[]" "\<lparr>path = ''/t/n'', wr = True, pos = 0\<rparr>"] a
      sparse_preallocation [of 3 sparse_os "0x7FFFFFFFFFFFFFFF" 95 "[]"] b
    by simp
qed


section \<open>Resizing on checkout\<close>

text \<open>
  C3, as the claim states it, fails: a checkout that finds the identity in the cache opens
  nothing. The file of 2048 bytes, already checked out, is checked out again with the target
  size 1024: the cached descriptor is returned, the only system call of the two checkouts is
  the first one's read-only open, and the file is still 2048 bytes long.
\<close>

theorem cached_checkout_counterexample:
  "fst (projr (run_checkouts (take 1 cached_requests) (example_session 0 2) example_os)) = [3] \<and>
   files (snd (snd (projr (run_checkouts (take 1 cached_requests) (example_session 0 2) example_os))))
     ''/t/d'' = Some 2048 \<and>
   fst (projr (run_checkouts cached_requests (example_session 0 2) example_os)) = [3, 3] \<and>
   files (snd (snd (projr (run_checkouts cached_requests (example_session 0 2) example_os))))
     ''/t/d'' = Some 2048 \<and>
   calls (snd (snd (projr (run_checkouts cached_requests (example_session 0 2) example_os)))) =
     [OpenFile ''/t/d'' (open_flags False)]"
  by code_simp

text \<open>
  C3, amended: take a checkout, in a session whose file cache exists, of a file that exists
  as a regular file and is longer than the target size, on a system whose error codes are
  non-zero. If the checkout is not
  served from the cache (no open slot carries the identity, or the slot is recorded
  read-only and a writable handle is asked for), every open it issues carries the write
  flag, whatever writability the caller asked for, and when it returns a descriptor, it
  opened the file writable and the file is exactly the target size long. If the checkout is
  served from the cache, it returns the cached descriptor, issues no call at all (no open,
  no truncate) and leaves the file at its size.
\<close>

theorem checkout_resize:
  assumes "fdInfo session = Some info"
    "files s filename = Some sz" "file_size < sz" "codes_nonzero s"
    "tr_fdFileCheckout session tid i filename writable allocation file_size s = Inr (h, session', s')"
  shows "(\<not> cache_serves (fileset info) tid i writable \<longrightarrow>
            (\<forall>p fl. OpenFile p fl \<in> set (issued s s') \<longrightarrow> TR_SYS_FILE_WRITE \<in> fl) \<and>
            (h \<noteq> TR_BAD_SYS_FILE \<longrightarrow>
               OpenFile filename (open_flags True) \<in> set (issued s s') \<and>
               fds s' h = Some \<lparr>path = filename, wr = True, pos = 0\<rparr> \<and>
               files s' filename = Some file_size)) \<and>
         (cache_serves (fileset info) tid i writable \<longrightarrow>
            s' = s \<and> issued s s' = [] \<and> files s' filename = Some sz \<and>
            (\<exists>k. fileset_lookup (fileset info) tid i = Some k \<and> h = fd (fileset info ! k)))"
proof (intro conjI impI)
  assume nc: "\<not> cache_serves (fileset info) tid i writable"
  from checkout_opening_existing [OF assms(1) nc assms(2,5)]
  obtain k pre where
    pre: "pre = (if cached_file_is_open (fileset info ! k)
                 then [CloseFile (fd (fileset info ! k))] else [])" and
    out: "h = TR_BAD_SYS_FILE \<and>
        (\<exists>post. calls s' = calls s @ pre @ post \<and>
           set post \<subseteq> {MkdirP (tr_sys_path_dirname filename),
                         OpenFile filename (open_flags (writable \<or> file_size < sz)),
                         Truncate (int (next_fd s)) file_size})
      \<or>
      h \<noteq> TR_BAD_SYS_FILE \<and>
        calls s' = calls s @ pre @ mkdir_calls writable filename @
                     [OpenFile filename (open_flags (writable \<or> file_size < sz))] @
                     (if file_size < sz then [Truncate h file_size] else []) \<and>
        fds s' h = Some \<lparr>path = filename, wr = (writable \<or> file_size < sz), pos = 0\<rparr> \<and>
        fd (session_fileset session' ! k) = h \<and>
        is_writable (session_fileset session' ! k) = writable \<and>
        torrent_id (session_fileset session' ! k) = tid \<and>
        file_index (session_fileset session' ! k) = i \<and>
        files s' filename \<noteq> None \<and>
        (codes_nonzero s \<longrightarrow>
           files s' = (if file_size < sz then (files s)(filename \<mapsto> file_size) else files s))"
    by blast
  have p: "\<forall>p fl. OpenFile p fl \<in> set pre \<longrightarrow> TR_SYS_FILE_WRITE \<in> fl"
    using pre by simp
  from out have both: "(\<forall>p fl. OpenFile p fl \<in> set (issued s s') \<longrightarrow> TR_SYS_FILE_WRITE \<in> fl) \<and>
         (h \<noteq> TR_BAD_SYS_FILE \<longrightarrow>
            OpenFile filename (open_flags True) \<in> set (issued s s') \<and>
            fds s' h = Some \<lparr>path = filename, wr = True, pos = 0\<rparr> \<and>
            files s' filename = Some file_size)"
  proof (elim disjE conjE exE)
    fix post
    assume "h = TR_BAD_SYS_FILE" "calls s' = calls s @ pre @ post"
      "set post \<subseteq> {MkdirP (tr_sys_path_dirname filename),
                     OpenFile filename (open_flags (writable \<or> file_size < sz)),
                     Truncate (int (next_fd s)) file_size}"
    then show ?thesis using p assms(3) by (auto simp: issued_def)
  next
    assume "h \<noteq> TR_BAD_SYS_FILE"
      "calls s' = calls s @ pre @ mkdir_calls writable filename @
                     [OpenFile filename (open_flags (writable \<or> file_size < sz))] @
                     (if file_size < sz then [Truncate h file_size] else [])"
      "fds s' h = Some \<lparr>path = filename, wr = (writable \<or> file_size < sz), pos = 0\<rparr>"
      "codes_nonzero s \<longrightarrow>
           files s' = (if file_size < sz then (files s)(filename \<mapsto> file_size) else files s)"
    then show ?thesis using p assms(3,4) by (auto simp: issued_def mkdir_calls_def)
  qed
  from both show "\<forall>p fl. OpenFile p fl \<in> set (issued s s') \<longrightarrow> TR_SYS_FILE_WRITE \<in> fl"
    by (rule conjunct1)
  assume hb: "h \<noteq> TR_BAD_SYS_FILE"
  from both hb show "OpenFile filename (open_flags True) \<in> set (issued s s')"
    and "fds s' h = Some \<lparr>path = filename, wr = True, pos = 0\<rparr>"
    and "files s' filename = Some file_size"
    by blast+
next
  assume c: "cache_serves (fileset info) tid i writable"
  then obtain k where k: "fileset_lookup (fileset info) tid i = Some k"
    "\<not> (writable \<and> \<not> is_writable (fileset info ! k))"
    by (auto simp: cache_serves_def split: option.splits)
  have res: "h = fd (fileset info ! k)" "s' = s"
    using checkout_hit [OF assms(1) k, of filename allocation file_size s] assms(5) by auto
  show "s' = s" by (rule res(2))
  show "issued s s' = []" using res(2) by (simp add: issued_def)
  show "files s' filename = Some sz" using res(2) assms(2) by simp
  show "\<exists>k. fileset_lookup (fileset info) tid i = Some k \<and> h = fd (fileset info ! k)"
    using k(1) res(1) by blast
qed

theorem checkout_resize_witness:
  "files (snd (snd (projr resized_first))) ''/t/d'' = Some 1024 \<and>
   fds (snd (snd (projr resized_first))) 3 = Some \<lparr>path = ''/t/d'', wr = True, pos = 0\<rparr> \<and>
   snd (snd (projr cached_second)) = snd (snd (projr cached_first)) \<and>
   files (snd (snd (projr cached_second))) ''/t/d'' = Some 2048"
proof -
  have a: "fdInfo (example_session 0 2) = Some \<lparr>peerCount = 0, fileset = fileset_construct FILE_CACHE_SIZE\<rparr>"
    by (simp add: example_session_def)
  have b: "\<not> cache_serves (fileset \<lparr>peerCount = 0, fileset = fileset_construct FILE_CACHE_SIZE\<rparr>) 4 0 False"
    by code_simp
  have c: "files example_os ''/t/d'' = Some 2048" "(1024::nat) < 2048" "codes_nonzero example_os"
    by (simp_all add: example_os_def codes_nonzero_def)
  have d: "(3::int) \<noteq> TR_BAD_SYS_FILE" by (simp add: TR_BAD_SYS_FILE_def)
  have A: "files (snd (snd (projr resized_first))) ''/t/d'' = Some 1024 \<and>
     fds (snd (snd (projr resized_first))) 3 = Some \<lparr>path = ''/t/d'', wr = True, pos = 0\<rparr>"
    using checkout_resize [OF a c example_checkout] b d by blast
  obtain info where info: "fdInfo (fst (snd (projr cached_first))) = Some info"
    using cached_examples(3) by auto
  then have sf: "session_fileset (fst (snd (projr cached_first))) = fileset info"
    by (simp add: session_fileset_def)
  have r: "tr_fdFileCheckout (fst (snd (projr cached_first))) 4 0 ''/t/d'' False TR_PREALLOCATE_NONE 1024
       (snd (snd (projr cached_first))) =
      Inr (fst (projr cached_second), fst (snd (projr cached_second)), snd (snd (projr cached_second)))"
    using result_collapse [OF cached_examples(2)] unfolding cached_second_def by simp
  have B: "snd (snd (projr cached_second)) = snd (snd (projr cached_first)) \<and>
     files (snd (snd (projr cached_second))) ''/t/d'' = Some 2048"
    using checkout_resize [OF info cached_examples(5) c(2) cached_examples(6) r]
      cached_examples(4) unfolding sf by blast
  from A B show ?thesis by blast
qed


section \<open>The writability a slot records\<close>

lemma get_cached_read_only:
  assumes "fdInfo session = Some info" "fileset_lookup (fileset info) tid i = Some k"
    "\<not> is_writable (fileset info ! k)"
  shows "tr_fdFileGetCached session tid i True s = Inr (TR_BAD_SYS_FILE, session, s)"
  using assms
  by (simp add: tr_fdFileGetCached_def get_fileset_def ensureSessionFdInfoExists_def)

text \<open>
  C10. A read-only checkout that finds no slot for the identity and opens a file longer than
  the target size opens it writable, and the slot it leaves records read-only, the caller's
  request: a peek that asks for a writable handle returns \<open>TR_BAD_SYS_FILE\<close>, and a writable
  checkout that follows closes the descriptor first and opens the file again.
\<close>

theorem forced_writable_recorded_read_only:
  assumes "fdInfo session = Some info" "fileset_lookup (fileset info) tid i = None"
    "files s filename = Some sz" "file_size < sz"
    "tr_fdFileCheckout session tid i filename False allocation file_size s = Inr (h, session', s')"
    "h \<noteq> TR_BAD_SYS_FILE"
  shows "(\<exists>k. fileset_lookup (session_fileset session') tid i = Some k \<and>
              fd (session_fileset session' ! k) = h \<and>
              \<not> is_writable (session_fileset session' ! k)) \<and>
         OpenFile filename (open_flags True) \<in> set (issued s s') \<and>
         fds s' h = Some \<lparr>path = filename, wr = True, pos = 0\<rparr> \<and>
         tr_fdFileGetCached session' tid i True s' = Inr (TR_BAD_SYS_FILE, session', s') \<and>
         (\<forall>h2 session2 s2.
            tr_fdFileCheckout session' tid i filename True allocation_b size_b s' =
              Inr (h2, session2, s2) \<longrightarrow>
            (\<exists>post. issued s' s2 = CloseFile h # post \<and>
               (h2 \<noteq> TR_BAD_SYS_FILE \<longrightarrow> OpenFile filename (open_flags True) \<in> set post)))"
proof -
  have nc: "\<not> cache_serves (fileset info) tid i False"
    using assms(2) by (simp add: cache_serves_def)
  have ncw: "\<not> cached_writable (fileset info) tid i"
    using assms(2) by (simp add: cached_writable_def)
  from checkout_success_state [OF assms(1,5,6)] ncw
  obtain k info' where st: "fdInfo session' = Some info'" "fileset info' = session_fileset session'"
    "fileset_lookup (fileset info') tid i = Some k" "fd (fileset info' ! k) = h"
    "\<not> is_writable (fileset info' ! k)"
    by auto
  from checkout_opening_existing [OF assms(1) nc assms(3,5)] assms(4,6)
  have op: "\<exists>pre. calls s' = calls s @ pre @ [OpenFile filename (open_flags True), Truncate h file_size]"
    "fds s' h = Some \<lparr>path = filename, wr = True, pos = 0\<rparr>"
    by (auto simp: mkdir_calls_def)
  have iss: "OpenFile filename (open_flags True) \<in> set (issued s s')"
    using op(1) by (auto simp: issued_def)
  have f': "files s' filename \<noteq> None"
    using checkout_keeps_file [OF assms(1,3,5,6)] .
  then obtain sz' where sz': "files s' filename = Some sz'" by auto
  have gc: "tr_fdFileGetCached session' tid i True s' = Inr (TR_BAD_SYS_FILE, session', s')"
    using get_cached_read_only [OF st(1,3,5)] .
  have re: "\<exists>post. issued s' s2 = CloseFile h # post \<and>
               (h2 \<noteq> TR_BAD_SYS_FILE \<longrightarrow> OpenFile filename (open_flags True) \<in> set post)"
    if "tr_fdFileCheckout session' tid i filename True allocation_b size_b s' = Inr (h2, session2, s2)"
    for h2 session2 s2
    using checkout_reopens [OF st(1,3,5) sz' that] st(4) by auto
  show ?thesis
    using st(2,3,4,5) iss op(2) gc re by auto
qed

theorem forced_writable_recorded_read_only_witness:
  "fds (snd (snd (projr resized_first))) 3 = Some \<lparr>path = ''/t/d'', wr = True, pos = 0\<rparr> \<and>
   tr_fdFileGetCached (fst (snd (projr resized_first))) 4 0 True (snd (snd (projr resized_first))) =
     Inr (TR_BAD_SYS_FILE, fst (snd (projr resized_first)), snd (snd (projr resized_first))) \<and>
   (\<exists>post. issued (snd (snd (projr resized_first))) (snd (snd (projr resized_second))) =
              CloseFile 3 # post \<and>
            OpenFile ''/t/d'' (open_flags True) \<in> set post)"
proof -
  have a: "fdInfo (example_session 0 2) = Some \<lparr>peerCount = 0, fileset = fileset_construct FILE_CACHE_SIZE\<rparr>"
    by (simp add: example_session_def)
  have b: "fileset_lookup (fileset \<lparr>peerCount = 0, fileset = fileset_construct FILE_CACHE_SIZE\<rparr>) 4 0 = None"
    by code_simp
  have c: "files example_os ''/t/d'' = Some 2048" "(1024::nat) < 2048"
    by (simp_all add: example_os_def)
  have d: "(3::int) \<noteq> TR_BAD_SYS_FILE" "(4::int) \<noteq> TR_BAD_SYS_FILE"
    by (simp_all add: TR_BAD_SYS_FILE_def)
  note t = forced_writable_recorded_read_only [OF a b c example_checkout d(1),
      where allocation_b = TR_PREALLOCATE_NONE and size_b = 1024]
  from t have "\<exists>post. issued (snd (snd (projr resized_first))) (snd (snd (projr resized_second))) =
              CloseFile 3 # post \<and>
            (4 \<noteq> TR_BAD_SYS_FILE \<longrightarrow> OpenFile ''/t/d'' (open_flags True) \<in> set post)"
    using example_recheckout by blast
  with t d(2) show ?thesis by blast
qed

section \<open>Upgrading a read-only slot\<close>

text \<open>
  C6, as the claim states it, fails: an identity checked out writable, then read-only, then
  writable again gets the descriptor 3 three times. The read-only checkout and the writable
  checkout after it issue no call: the log of calls after them is the log after the first
  checkout, so nothing is closed and nothing is reopened.
\<close>

theorem upgrade_cached_counterexample:
  "fst (projr (run_checkouts upgrade_cached_requests (example_session 0 2) example_os)) = [3, 3, 3] \<and>
   calls (snd (snd (projr (run_checkouts (take 1 upgrade_cached_requests) (example_session 0 2) example_os)))) =
     [MkdirP ''/t'', OpenFile ''/t/a'' (open_flags True)] \<and>
   calls (snd (snd (projr (run_checkouts (take 2 upgrade_cached_requests) (example_session 0 2) example_os)))) =
     [MkdirP ''/t'', OpenFile ''/t/a'' (open_flags True)] \<and>
   calls (snd (snd (projr (run_checkouts upgrade_cached_requests (example_session 0 2) example_os)))) =
     [MkdirP ''/t'', OpenFile ''/t/a'' (open_flags True)]"
  by code_simp

text \<open>
  C6, amended: in a session whose file cache exists, an identity that no open slot carries
  recorded writable, of a file that exists, is checked out read-only and then writable,
  both with success: the second checkout closes the descriptor the first returned, creates
  the parent directories, opens the file once, with the write flag, and at most truncates
  the new descriptor; no other call is issued, and the descriptor returned is open writable.
  An identity checked out writable, with success, and then read-only: the second checkout
  returns the same descriptor and leaves the system as it was, so no call is issued at all.
\<close>

theorem writability_upgrade:
  assumes "fdInfo session = Some info"
  shows "(files s f = Some sz \<and> \<not> cached_writable (fileset info) tid i \<and>
          tr_fdFileCheckout session tid i f False alloc n s = Inr (ha, sessa, sa) \<and>
          ha \<noteq> TR_BAD_SYS_FILE \<and>
          tr_fdFileCheckout sessa tid i f True allocb nb (sa\<lparr>clock := t\<rparr>) =
            Inr (hb, sessb, sb) \<and>
          hb \<noteq> TR_BAD_SYS_FILE \<longrightarrow>
            (\<exists>trunc. issued (sa\<lparr>clock := t\<rparr>) sb =
                 CloseFile ha # MkdirP (tr_sys_path_dirname f) # OpenFile f (open_flags True) # trunc \<and>
               set trunc \<subseteq> {Truncate hb nb}) \<and>
            fds sb hb = Some \<lparr>path = f, wr = True, pos = 0\<rparr>) \<and>
         (tr_fdFileCheckout session tid i f True alloc n s = Inr (ha, sessa, sa) \<and>
          ha \<noteq> TR_BAD_SYS_FILE \<longrightarrow>
            (\<exists>sessb. tr_fdFileCheckout sessa tid i fb False allocb nb (sa\<lparr>clock := t\<rparr>) =
               Inr (ha, sessb, sa\<lparr>clock := t\<rparr>)))"
proof (intro conjI impI)
  assume h: "files s f = Some sz \<and> \<not> cached_writable (fileset info) tid i \<and>
          tr_fdFileCheckout session tid i f False alloc n s = Inr (ha, sessa, sa) \<and>
          ha \<noteq> TR_BAD_SYS_FILE \<and>
          tr_fdFileCheckout sessa tid i f True allocb nb (sa\<lparr>clock := t\<rparr>) =
            Inr (hb, sessb, sb) \<and>
          hb \<noteq> TR_BAD_SYS_FILE"
  then have ca: "tr_fdFileCheckout session tid i f False alloc n s = Inr (ha, sessa, sa)"
    and ba: "ha \<noteq> TR_BAD_SYS_FILE" and fe: "files s f = Some sz"
    and cb: "tr_fdFileCheckout sessa tid i f True allocb nb (sa\<lparr>clock := t\<rparr>) =
            Inr (hb, sessb, sb)" and bb: "hb \<noteq> TR_BAD_SYS_FILE"
    by simp_all
  from checkout_success_state [OF assms ca ba] h
  obtain k info' where st: "fdInfo sessa = Some info'"
    "fileset_lookup (fileset info') tid i = Some k" "fd (fileset info' ! k) = ha"
    "\<not> is_writable (fileset info' ! k)"
    by auto
  obtain sz' where sz': "files (sa\<lparr>clock := t\<rparr>) f = Some sz'"
    using checkout_keeps_file [OF assms fe ca ba] by auto
  note re = checkout_reopens [OF st(1,2,4) sz' cb]
  show "\<exists>trunc. issued (sa\<lparr>clock := t\<rparr>) sb =
                 CloseFile ha # MkdirP (tr_sys_path_dirname f) # OpenFile f (open_flags True) # trunc \<and>
               set trunc \<subseteq> {Truncate hb nb}"
    using re bb st(3) by auto
  show "fds sb hb = Some \<lparr>path = f, wr = True, pos = 0\<rparr>"
    using re bb by blast
next
  assume h: "tr_fdFileCheckout session tid i f True alloc n s = Inr (ha, sessa, sa) \<and>
          ha \<noteq> TR_BAD_SYS_FILE"
  then have ca: "tr_fdFileCheckout session tid i f True alloc n s = Inr (ha, sessa, sa)"
    and ba: "ha \<noteq> TR_BAD_SYS_FILE"
    by simp_all
  from checkout_success_state [OF assms ca ba]
  obtain k info' where st: "fdInfo sessa = Some info'"
    "fileset_lookup (fileset info') tid i = Some k" "fd (fileset info' ! k) = ha"
    by auto
  have "\<not> (False \<and> \<not> is_writable (fileset info' ! k))" by simp
  from checkout_hit [OF st(1,2) this, of fb allocb nb "sa\<lparr>clock := t\<rparr>"] st(3)
  show "\<exists>sessb. tr_fdFileCheckout sessa tid i fb False allocb nb (sa\<lparr>clock := t\<rparr>) =
               Inr (ha, sessb, sa\<lparr>clock := t\<rparr>)"
    by auto
qed

theorem writability_upgrade_witness:
  "(\<exists>trunc. issued ((snd (snd (projr read_only_first)))\<lparr>clock := 101\<rparr>)
               (snd (snd (projr writable_second))) =
       CloseFile 3 # MkdirP (tr_sys_path_dirname ''/t/a'') # OpenFile ''/t/a'' (open_flags True) # trunc \<and>
     set trunc \<subseteq> {Truncate 4 10}) \<and>
   fds (snd (snd (projr writable_second))) 4 = Some \<lparr>path = ''/t/a'', wr = True, pos = 0\<rparr> \<and>
   (\<exists>sessb. read_only_second =
      Inr (3, sessb, (snd (snd (projr writable_first)))\<lparr>clock := 101\<rparr>))"
proof -
  have a: "fdInfo (example_session 0 2) = Some \<lparr>peerCount = 0, fileset = fileset_construct FILE_CACHE_SIZE\<rparr>"
    by (simp add: example_session_def)
  have b: "\<not> cached_writable (fileset \<lparr>peerCount = 0, fileset = fileset_construct FILE_CACHE_SIZE\<rparr>) 1 0"
    by code_simp
  have c: "files example_os ''/t/a'' = Some 10"
    by (simp add: example_os_def)
  have d: "(3::int) \<noteq> TR_BAD_SYS_FILE" "(4::int) \<noteq> TR_BAD_SYS_FILE" by (simp_all add: TR_BAD_SYS_FILE_def)
  have p1: "tr_fdFileCheckout (example_session 0 2) 1 0 ''/t/a'' False TR_PREALLOCATE_NONE 10 example_os =
      Inr (3, fst (snd (projr read_only_first)), snd (snd (projr read_only_first)))"
    unfolding read_only_first_def [symmetric]
    by (rule result_collapse_fst [OF upgrade_examples(1,2)])
  have p2: "tr_fdFileCheckout (fst (snd (projr read_only_first))) 1 0 ''/t/a'' True TR_PREALLOCATE_NONE 10
       ((snd (snd (projr read_only_first)))\<lparr>clock := 101\<rparr>) =
      Inr (4, fst (snd (projr writable_second)), snd (snd (projr writable_second)))"
    unfolding writable_second_def [symmetric]
    by (rule result_collapse_fst [OF upgrade_examples(3,4)])
  have p3: "tr_fdFileCheckout (example_session 0 2) 1 0 ''/t/a'' True TR_PREALLOCATE_NONE 10 example_os =
      Inr (3, fst (snd (projr writable_first)), snd (snd (projr writable_first)))"
    unfolding writable_first_def [symmetric]
    by (rule result_collapse_fst [OF upgrade_examples(5,6)])
  have A: "(\<exists>trunc. issued ((snd (snd (projr read_only_first)))\<lparr>clock := 101\<rparr>)
               (snd (snd (projr writable_second))) =
       CloseFile 3 # MkdirP (tr_sys_path_dirname ''/t/a'') # OpenFile ''/t/a'' (open_flags True) # trunc \<and>
     set trunc \<subseteq> {Truncate 4 10}) \<and>
   fds (snd (snd (projr writable_second))) 4 = Some \<lparr>path = ''/t/a'', wr = True, pos = 0\<rparr>"
    using writability_upgrade [OF a, THEN conjunct1, rule_format, OF conjI [OF c conjI [OF b
      conjI [OF p1 conjI [OF d(1) conjI [OF p2 d(2)]]]]]] .
  have B: "\<exists>sessb. tr_fdFileCheckout (fst (snd (projr writable_first))) 1 0 ''/t/a'' False
        TR_PREALLOCATE_NONE 10 ((snd (snd (projr writable_first)))\<lparr>clock := 101\<rparr>) =
      Inr (3, sessb, (snd (snd (projr writable_first)))\<lparr>clock := 101\<rparr>)"
    using writability_upgrade [OF a, THEN conjunct2, rule_format, OF conjI [OF p3 d(1)]] .
  from A B show ?thesis by (simp add: read_only_second_def)
qed


section \<open>Capacity and eviction\<close>

lemma capacity_examples:
  "\<not> isl (run_checkouts cached_requests (fresh_session 2) example_os)"
  "\<not> isl full_state"
  "fdInfo (fst (snd (projr full_state))) \<noteq> None"
  "fileset_lookup (session_fileset (fst (snd (projr full_state)))) 40 0 = None"
  "find_unused_slot (session_fileset (fst (snd (projr full_state)))) = None"
  "\<not> isl evicting_checkout"
  by (code_simp+)

text \<open>
  C4. Whatever checkouts a session that starts without \<^verbatim>\<open>fdInfo\<close>, on a system without open
  files, has run: it has at most \<open>FILE_CACHE_SIZE\<close> (32) slots, so at most that many open ones,
  and every descriptor open in the system is held by an open slot, so at most
  \<open>FILE_CACHE_SIZE\<close> descriptors are open. And a checkout that finds neither an open slot with
  the identity nor a closed slot closes, before any other call, the descriptor of an open
  slot whose \<^verbatim>\<open>used_at\<close> is smallest, leaves the number of slots and every other slot as they
  were, and when it returns a descriptor that slot holds it under the new identity.
\<close>

theorem fileset_capacity:
  "(fdInfo session = None \<and> fds s = Map.empty \<and>
    run_checkouts rs session s = Inr (hs, session', s') \<longrightarrow>
      length (session_fileset session') \<le> FILE_CACHE_SIZE \<and>
      length (open_slots session') \<le> FILE_CACHE_SIZE \<and>
      dom (fds s') \<subseteq> owned (session_fileset session') \<and>
      finite (dom (fds s')) \<and> card (dom (fds s')) \<le> FILE_CACHE_SIZE) \<and>
   (fdInfo session = Some info \<and> fileset_lookup (fileset info) tid i = None \<and>
    find_unused_slot (fileset info) = None \<and>
    tr_fdFileCheckout session tid i f w alloc n s = Inr (h, session', s') \<longrightarrow>
      (\<exists>k. k < length (fileset info) \<and>
           (\<forall>m<length (fileset info). used_at (fileset info ! k) \<le> used_at (fileset info ! m)) \<and>
           cached_file_is_open (fileset info ! k) \<and>
           (\<exists>post. issued s s' = CloseFile (fd (fileset info ! k)) # post) \<and>
           length (session_fileset session') = length (fileset info) \<and>
           (\<forall>j<length (fileset info). j \<noteq> k \<longrightarrow> session_fileset session' ! j = fileset info ! j) \<and>
           (h \<noteq> TR_BAD_SYS_FILE \<longrightarrow>
              fd (session_fileset session' ! k) = h \<and>
              torrent_id (session_fileset session' ! k) = tid \<and>
              file_index (session_fileset session' ! k) = i)))"
proof (intro conjI impI)
  assume a: "fdInfo session = None \<and> fds s = Map.empty \<and>
    run_checkouts rs session s = Inr (hs, session', s')"
  then have "holds_descriptors session s"
    by (simp add: holds_descriptors_def session_fileset_def)
  with a have hd: "holds_descriptors session' s'" using run_holds by blast
  then show l: "length (session_fileset session') \<le> FILE_CACHE_SIZE"
    and d: "dom (fds s') \<subseteq> owned (session_fileset session')"
    by (simp_all add: holds_descriptors_def)
  have "length (open_slots session') \<le> length (session_fileset session')"
    by (simp add: open_slots_def)
  with l show "length (open_slots session') \<le> FILE_CACHE_SIZE" by simp
  note oc = owned_card [of "session_fileset session'"]
  show f: "finite (dom (fds s'))" using d oc by (blast intro: finite_subset)
  have "card (dom (fds s')) \<le> card (owned (session_fileset session'))"
    using d oc by (blast intro: card_mono)
  then show "card (dom (fds s')) \<le> FILE_CACHE_SIZE" using oc l by simp
next
  assume "fdInfo session = Some info \<and> fileset_lookup (fileset info) tid i = None \<and>
    find_unused_slot (fileset info) = None \<and>
    tr_fdFileCheckout session tid i f w alloc n s = Inr (h, session', s')"
  then show "\<exists>k. k < length (fileset info) \<and>
           (\<forall>m<length (fileset info). used_at (fileset info ! k) \<le> used_at (fileset info ! m)) \<and>
           cached_file_is_open (fileset info ! k) \<and>
           (\<exists>post. issued s s' = CloseFile (fd (fileset info ! k)) # post) \<and>
           length (session_fileset session') = length (fileset info) \<and>
           (\<forall>j<length (fileset info). j \<noteq> k \<longrightarrow> session_fileset session' ! j = fileset info ! j) \<and>
           (h \<noteq> TR_BAD_SYS_FILE \<longrightarrow>
              fd (session_fileset session' ! k) = h \<and>
              torrent_id (session_fileset session' ! k) = tid \<and>
              file_index (session_fileset session' ! k) = i)"
    using checkout_evicts [of session info tid i f w alloc n s h session' s'] by blast
qed

theorem fileset_capacity_witness:
  "card (dom (fds (snd (snd (projr (run_checkouts cached_requests (fresh_session 2) example_os))))))
     \<le> FILE_CACHE_SIZE \<and>
   (\<exists>k. k < length (session_fileset (fst (snd (projr full_state)))) \<and>
      (\<forall>m<length (session_fileset (fst (snd (projr full_state)))).
          used_at (session_fileset (fst (snd (projr full_state))) ! k)
            \<le> used_at (session_fileset (fst (snd (projr full_state))) ! m)) \<and>
      (\<exists>post. issued ((snd (snd (projr full_state)))\<lparr>clock := 200\<rparr>)
                 (snd (snd (projr evicting_checkout))) =
         CloseFile (fd (session_fileset (fst (snd (projr full_state))) ! k)) # post))"
proof -
  let ?r = "run_checkouts cached_requests (fresh_session 2) example_os"
  have a: "fdInfo (fresh_session 2) = None \<and> fds example_os = Map.empty \<and>
      ?r = Inr (fst (projr ?r), fst (snd (projr ?r)), snd (snd (projr ?r)))"
    using result_collapse [OF capacity_examples(1)]
    by (simp add: fresh_session_def example_os_def)
  obtain info where info: "fdInfo (fst (snd (projr full_state))) = Some info"
    using capacity_examples(3) by auto
  then have sf: "session_fileset (fst (snd (projr full_state))) = fileset info"
    by (simp add: session_fileset_def)
  have b: "fdInfo (fst (snd (projr full_state))) = Some info \<and>
      fileset_lookup (fileset info) 40 0 = None \<and> find_unused_slot (fileset info) = None \<and>
      tr_fdFileCheckout (fst (snd (projr full_state))) 40 0 ''/t/e'' False TR_PREALLOCATE_NONE 10
       ((snd (snd (projr full_state)))\<lparr>clock := 200\<rparr>) =
      Inr (fst (projr evicting_checkout), fst (snd (projr evicting_checkout)),
           snd (snd (projr evicting_checkout)))"
    using info capacity_examples(4,5) result_collapse [OF capacity_examples(6)]
    unfolding sf evicting_checkout_def by simp
  from fileset_capacity [THEN conjunct1, rule_format, OF a]
  have A: "card (dom (fds (snd (snd (projr ?r))))) \<le> FILE_CACHE_SIZE" by blast
  from fileset_capacity [THEN conjunct2, rule_format, OF b]
  have B: "\<exists>k. k < length (fileset info) \<and>
      (\<forall>m<length (fileset info). used_at (fileset info ! k) \<le> used_at (fileset info ! m)) \<and>
      (\<exists>post. issued ((snd (snd (projr full_state)))\<lparr>clock := 200\<rparr>)
                 (snd (snd (projr evicting_checkout))) =
         CloseFile (fd (fileset info ! k)) # post)"
    by blast
  from A B show ?thesis unfolding sf by blast
qed

section \<open>A truncate that fails\<close>

text \<open>
  C1. When the open succeeds and the truncate to the target size fails, the checkout returns
  \<^verbatim>\<open>TR_BAD_SYS_FILE\<close> with \<^verbatim>\<open>errno\<close> set to the code of the failure, as the claim says. The
  descriptor is not cleaned up: \<^verbatim>\<open>cached_file_open\<close> returns the code with the new descriptor
  stored in the slot, and \<^verbatim>\<open>tr_fdFileCheckout\<close> returns without closing it and without
  giving the slot the new identity. After the three checkouts of \<^verbatim>\<open>leak_requests\<close> the third
  has returned -1 with \<^verbatim>\<open>errno\<close> 5, the descriptor 4 is open on \<^verbatim>\<open>/t/d\<close>, the first slot
  holds it under the identity (1, 0) of \<^verbatim>\<open>/t/a\<close>, and \<^verbatim>\<open>tr_fdFileGetCached\<close> asked for
  (1, 0) returns the descriptor 4.
\<close>

theorem truncate_failure_keeps_descriptor:
  "\<not> isl leak_state \<and>
   fst (projr leak_state) = [3, - 1, - 1] \<and>
   errno (snd (snd (projr leak_state))) = 5 \<and>
   calls (snd (snd (projr leak_state))) =
     [OpenFile ''/t/a'' (open_flags False), CloseFile 3, MkdirP ''/t'',
      OpenFile ''/t/a'' (open_flags True), OpenFile ''/t/d'' (open_flags True),
      Truncate 4 1024] \<and>
   session_fileset (fst (snd (projr leak_state))) ! 0 =
     \<lparr>is_writable = False, fd = 4, torrent_id = 1, file_index = 0, used_at = 101\<rparr> \<and>
   fds (snd (snd (projr leak_state))) 4 = Some \<lparr>path = ''/t/d'', wr = True, pos = 0\<rparr> \<and>
   fst (projr (tr_fdFileGetCached (fst (snd (projr leak_state))) 1 0 False
                 (snd (snd (projr leak_state))))) = 4"
  by code_simp


section \<open>One open slot for an identity\<close>

text \<open>
  C5. The code does not keep the identities of the open slots distinct: a truncate that
  fails after the open succeeded leaves the slot open under the identity it carried before,
  which another open slot may carry. After the six checkouts of \<^verbatim>\<open>dup_requests\<close> two open
  slots match the identity (1, 0), the first with the descriptor 5, open on \<^verbatim>\<open>/t/a\<close>, the
  second with the descriptor 6, open on \<^verbatim>\<open>/t/d\<close>.
\<close>

theorem identity_held_twice:
  "\<not> isl dup_state \<and>
   fst (projr dup_state) = [3, 4, - 1, - 1, 5, - 1] \<and>
   filter (slot_matches 1 0) (session_fileset (fst (snd (projr dup_state)))) =
     [\<lparr>is_writable = False, fd = 5, torrent_id = 1, file_index = 0, used_at = 105\<rparr>,
      \<lparr>is_writable = False, fd = 6, torrent_id = 1, file_index = 0, used_at = 102\<rparr>] \<and>
   fds (snd (snd (projr dup_state))) 5 = Some \<lparr>path = ''/t/a'', wr = False, pos = 0\<rparr> \<and>
   fds (snd (snd (projr dup_state))) 6 = Some \<lparr>path = ''/t/d'', wr = True, pos = 0\<rparr>"
  by code_simp


end
